theory Spec2Isabelle
  imports Main
begin

section \<open>JavaScript values and string primitives used by \<open>src/error.js\<close>\<close>

text \<open>
  Strings are \<open>char list\<close>; an array element or a capture group that JavaScript leaves
  \<open>undefined\<close> is the value \<open>Undefined\<close>. A raise of the source is the left
  summand of a sum type, a loop that does not return is the value \<open>None\<close>.
  Numbers are \<open>int\<close> (and \<open>nat\<close> for positions inside a string): exact for every
  length, index and count a string or an array of the program can have.
\<close>

datatype error = TypeError | RangeError

datatype jsval = Undefined | Str string

text \<open>\<open>String(v)\<close>, as \<open>RegExp.prototype.exec\<close> applies it to its argument.\<close>

fun toString :: "jsval \<Rightarrow> string" where
  "toString Undefined = ''undefined''"
| "toString (Str s) = s"

text \<open>Array read \<open>xs[i]\<close>: \<open>undefined\<close> out of range.\<close>

definition at :: "jsval list \<Rightarrow> int \<Rightarrow> jsval" where
  "at xs i = (if 0 \<le> i \<and> i < int (length xs) then xs ! nat i else Undefined)"

text \<open>
  \<open>s.split("\n")\<close>: never empty, \<open>"".split("\n")\<close> is \<open>[""]\<close>. A character
  that is not a newline goes in front of the first line of what follows.
\<close>

fun pushChar :: "char \<Rightarrow> string list \<Rightarrow> string list" where
  "pushChar c [] = [[c]]"
| "pushChar c (l # ls) = (c # l) # ls"

fun js_split :: "string \<Rightarrow> string list" where
  "js_split [] = [[]]"
| "js_split (c # cs) =
     (if c = CHR 0x0A then [] # js_split cs else pushChar c (js_split cs))"

text \<open>\<open>xs.join("\n")\<close>: an \<open>undefined\<close> element is rendered as the empty string.\<close>

fun joinText :: "jsval \<Rightarrow> string" where
  "joinText Undefined = []"
| "joinText (Str s) = s"

fun js_join :: "jsval list \<Rightarrow> string" where
  "js_join [] = []"
| "js_join [v] = joinText v"
| "js_join (v # w # vs) = joinText v @ CHR 0x0A # js_join (w # vs)"

definition js_startsWith :: "string \<Rightarrow> string \<Rightarrow> bool" where
  "js_startsWith s t = (take (length t) s = t)"

text \<open>\<open>s.includes(t)\<close>: \<open>t\<close> occurs somewhere in \<open>s\<close>.\<close>

fun js_includes :: "string \<Rightarrow> string \<Rightarrow> bool" where
  "js_includes [] t = (t = [])"
| "js_includes (c # cs) t = (if js_startsWith (c # cs) t then True else js_includes cs t)"

text \<open>\<open>s.indexOf(c)\<close> for a one-character search string: \<open>-1\<close> when absent.\<close>

fun js_indexOf :: "string \<Rightarrow> char \<Rightarrow> int" where
  "js_indexOf [] c = -1"
| "js_indexOf (x # xs) c =
     (if x = c then 0
      else (let i = js_indexOf xs c in if i < 0 then -1 else i + 1))"

text \<open>
  \<open>s.substr(start, length)\<close>: a negative start counts from the end, and the result is
  cut at the end of the string.
\<close>

definition js_substr :: "string \<Rightarrow> int \<Rightarrow> int \<Rightarrow> string" where
  "js_substr s start len =
     (let size = int (length s);
          intStart = (if start < 0 then max (size + start) 0 else min start size);
          resultLength = min (max len 0) (size - intStart)
      in if resultLength \<le> 0 then []
         else take (nat resultLength) (drop (nat intStart) s))"

text \<open>
  \<open>s.lastIndexOf(t, position)\<close>: the position is first clamped into \<open>0..length s\<close>
  (so a negative position searches at index 0), then the largest index not above it
  where \<open>t\<close> occurs is returned, or \<open>-1\<close>.
\<close>

fun lastIndexFrom :: "string \<Rightarrow> string \<Rightarrow> nat \<Rightarrow> int" where
  "lastIndexFrom s t 0 = (if js_startsWith s t then 0 else -1)"
| "lastIndexFrom s t (Suc k) =
     (if js_startsWith (drop (Suc k) s) t then int (Suc k) else lastIndexFrom s t k)"

definition js_lastIndexOf :: "string \<Rightarrow> string \<Rightarrow> int \<Rightarrow> int" where
  "js_lastIndexOf s t position =
     lastIndexFrom s t (nat (min (max position 0) (int (length s))))"

text \<open>
  \<open>" ".repeat(count)\<close>, to which the source appends the caret at once: a RangeError
  when the result would be longer than the engine allows a string to be. The bound is the
  engine's: \<open>2^29 - 24\<close> is V8's on a 64-bit machine (the language itself stops at
  \<open>2^53 - 1\<close>, and an infinite count is above every bound).
\<close>

definition maxStringLength :: int where
  "maxStringLength = 2 ^ 29 - 24"

definition js_repeat :: "int \<Rightarrow> error + string" where
  "js_repeat count =
     (if count + 1 > maxStringLength then Inl RangeError
      else Inr (replicate (nat count) CHR '' ''))"

text \<open>
  Decimal digits: \<open>+"123"\<close> for a text of digits, and \<open>String(123)\<close> for a number
  that is not negative.
\<close>

definition isDigit :: "char \<Rightarrow> bool" where
  "isDigit c = (c \<in> set ''0123456789'')"

definition digitVal :: "char \<Rightarrow> int" where
  "digitVal c = of_char c - 48"

definition toNumber :: "string \<Rightarrow> int" where
  "toNumber ds = foldl (\<lambda>a c. 10 * a + digitVal c) 0 ds"

function showNum :: "int \<Rightarrow> string" where
  "showNum n =
     (if n < 10 then [char_of (48 + n)]
      else showNum (n div 10) @ [char_of (48 + n mod 10)])"
  by pat_completeness auto
termination
  by (relation "measure nat") auto

declare showNum.simps [simp del]

section \<open>Regular expressions\<close>

text \<open>
  The four patterns of the source use literals, character classes repeated greedily or
  lazily, capture groups, alternation, an optional part, the anchors and a positive
  lookahead. \<open>rmatch\<close> is the backtracking matcher of the language: it tries the
  alternatives in priority order and hands every partial match to a continuation; the
  first complete match wins. A matcher state is the position, the rest of the input and
  the captures made so far.
\<close>

datatype rx =
    Lit string
  | Greedy "char \<Rightarrow> bool" nat
  | Lazy "char \<Rightarrow> bool" nat
  | Cap nat rx
  | Seq rx rx
  | Alt rx rx
  | Opt rx
  | Bol
  | Eol
  | Ahead rx

type_synonym caps = "(nat \<times> string) list"

type_synonym mstate = "nat \<times> string \<times> caps"

text \<open>
  \<open>c{m,}\<close> greedy: take as many characters of the class as possible, give back one at
  a time. \<open>c{m,}?\<close> lazy: take as few as possible, and one more each time the rest fails.
\<close>

fun greedy :: "(char \<Rightarrow> bool) \<Rightarrow> nat \<Rightarrow> nat \<Rightarrow> string \<Rightarrow> caps \<Rightarrow> (mstate \<Rightarrow> mstate option)
    \<Rightarrow> mstate option" where
  "greedy cls m p [] c k = (if m = 0 then k (p, [], c) else None)"
| "greedy cls m p (x # xs) c k =
     (if cls x then
        (case greedy cls (m - 1) (Suc p) xs c k of
           Some r \<Rightarrow> Some r
         | None \<Rightarrow> if m = 0 then k (p, x # xs, c) else None)
      else if m = 0 then k (p, x # xs, c) else None)"

fun lazy :: "(char \<Rightarrow> bool) \<Rightarrow> nat \<Rightarrow> nat \<Rightarrow> string \<Rightarrow> caps \<Rightarrow> (mstate \<Rightarrow> mstate option)
    \<Rightarrow> mstate option" where
  "lazy cls m p [] c k = (if m = 0 then k (p, [], c) else None)"
| "lazy cls m p (x # xs) c k =
     (case (if m = 0 then k (p, x # xs, c) else None) of
        Some r \<Rightarrow> Some r
      | None \<Rightarrow> if cls x then lazy cls (m - 1) (Suc p) xs c k else None)"

fun rmatch :: "rx \<Rightarrow> mstate \<Rightarrow> (mstate \<Rightarrow> mstate option) \<Rightarrow> mstate option" where
  "rmatch (Lit t) st k =
     (if js_startsWith (fst (snd st)) t
      then k (fst st + length t, drop (length t) (fst (snd st)), snd (snd st))
      else None)"
| "rmatch (Greedy cls m) st k = greedy cls m (fst st) (fst (snd st)) (snd (snd st)) k"
| "rmatch (Lazy cls m) st k = lazy cls m (fst st) (fst (snd st)) (snd (snd st)) k"
| "rmatch (Cap i x) st k =
     rmatch x st
       (\<lambda>st'. k (fst st', fst (snd st'),
                 (i, take (fst st' - fst st) (fst (snd st))) # snd (snd st')))"
| "rmatch (Seq x y) st k = rmatch x st (\<lambda>st'. rmatch y st' k)"
| "rmatch (Alt x y) st k =
     (case rmatch x st k of Some r \<Rightarrow> Some r | None \<Rightarrow> rmatch y st k)"
| "rmatch (Opt x) st k =
     (case rmatch x st k of Some r \<Rightarrow> Some r | None \<Rightarrow> k st)"
| "rmatch Bol st k = (if fst st = 0 then k st else None)"
| "rmatch Eol st k = (if fst (snd st) = [] then k st else None)"
| "rmatch (Ahead x) st k =
     (case rmatch x st Some of
        None \<Rightarrow> None
      | Some st' \<Rightarrow> k (fst st, fst (snd st), snd (snd st')))"

text \<open>
  \<open>re.exec(s)\<close> for a pattern without flags: the leftmost start position that matches.
  The result holds the start and the end of the match and the captures; \<open>None\<close> is
  JavaScript's \<open>null\<close>.
\<close>

type_synonym rmatch_result = "nat \<times> nat \<times> caps"

fun execFrom :: "rx \<Rightarrow> nat \<Rightarrow> string \<Rightarrow> rmatch_result option" where
  "execFrom x p [] =
     (case rmatch x (p, [], []) Some of
        Some st \<Rightarrow> Some (p, fst st, snd (snd st))
      | None \<Rightarrow> None)"
| "execFrom x p (ch # r) =
     (case rmatch x (p, ch # r, []) Some of
        Some st \<Rightarrow> Some (p, fst st, snd (snd st))
      | None \<Rightarrow> execFrom x (Suc p) r)"

definition exec :: "rx \<Rightarrow> string \<Rightarrow> rmatch_result option" where
  "exec x s = execFrom x 0 s"

text \<open>\<open>match[i]\<close>: \<open>undefined\<close> for a group that took no part in the match.\<close>

definition group :: "rmatch_result \<Rightarrow> nat \<Rightarrow> jsval" where
  "group m i = (case map_of (snd (snd m)) i of None \<Rightarrow> Undefined | Some s \<Rightarrow> Str s)"

text \<open>\<open>s.replace(re, t)\<close> for a pattern without the global flag and a text of digits.\<close>

definition js_replace :: "rx \<Rightarrow> string \<Rightarrow> string \<Rightarrow> string" where
  "js_replace x s t =
     (case exec x s of
        None \<Rightarrow> s
      | Some m \<Rightarrow> take (fst m) s @ t @ drop (fst (snd m)) s)"

text \<open>
  \<open>.\<close> matches any character but a line terminator (of the four that JavaScript has,
  line feed and carriage return are characters of \<open>char\<close>); \<open>\d\<close> is an ASCII
  digit.
\<close>

definition dot :: "char \<Rightarrow> bool" where
  "dot c = (c \<noteq> CHR 0x0A \<and> c \<noteq> CHR 0x0D)"

text \<open>\<^verbatim>\<open>/^(.+?: .+?) \((\d+):(\d+)\)(?:.*?: (.+))?$/\<close>\<close>

definition errorMessageRegExp :: rx where
  "errorMessageRegExp =
     Seq Bol
    (Seq (Cap 1 (Seq (Lazy dot 1) (Seq (Lit '': '') (Lazy dot 1))))
    (Seq (Lit '' ('')
    (Seq (Cap 2 (Greedy isDigit 1))
    (Seq (Lit '':'')
    (Seq (Cap 3 (Greedy isDigit 1))
    (Seq (Lit '')'')
    (Seq (Opt (Seq (Lazy dot 0) (Seq (Lit '': '') (Cap 4 (Greedy dot 1)))))
         Eol)))))))"

text \<open>\<^verbatim>\<open>/:(\d+)/\<close>\<close>

definition lineNumRegExp :: rx where
  "lineNumRegExp = Seq (Lit '':'') (Cap 1 (Greedy isDigit 1))"

text \<open>\<^verbatim>\<open>/(\d+)(?=\)|$)/\<close>\<close>

definition columnNumRegExp :: rx where
  "columnNumRegExp = Seq (Cap 1 (Greedy isDigit 1)) (Ahead (Alt (Lit '')'') Eol))"

text \<open>\<^verbatim>\<open>/(?:^ {4}at |\()(.*?)(?=:\d+:\d+\)?$)/\<close>\<close>

definition filePathRegExp :: rx where
  "filePathRegExp =
     Seq (Alt (Seq Bol (Lit ''    at '')) (Lit ''(''))
    (Seq (Cap 1 (Lazy dot 0))
         (Ahead (Seq (Lit '':'')
                (Seq (Greedy isDigit 1)
                (Seq (Lit '':'')
                (Seq (Greedy isDigit 1)
                (Seq (Opt (Lit '')'')) Eol)))))))"

section \<open>The masking functions\<close>

text \<open>
  \<open>scrubStack\<close>: the lines that contain the name of the loader's own file are removed.
  \<open>__non_webpack_filename__\<close> is set when the package is built; it is the parameter
  \<open>filename\<close> here.
\<close>

definition scrubStack :: "string \<Rightarrow> string \<Rightarrow> string" where
  "scrubStack filename stack =
     js_join (map Str (filter (\<lambda>line. \<not> js_includes line filename) (js_split stack)))"

subsection \<open>The column search of \<open>maskStackLines\<close> (lines 174 to 190)\<close>

text \<open>
  The inner loop
  \<^verbatim>\<open>while ((index = sourceLineOfCode.lastIndexOf(clip, index - 1)) > -1) newColumn = index\<close>.
  It stops at the first search that finds nothing; \<open>None\<close> is the loop that never stops.
\<close>

partial_function (option) scanLeft :: "string \<Rightarrow> string \<Rightarrow> int \<Rightarrow> int \<Rightarrow> int option" where
  "scanLeft sourceLineOfCode clip index newColumn =
     (let index' = js_lastIndexOf sourceLineOfCode clip (index - 1)
      in if index' > -1 then scanLeft sourceLineOfCode clip index' index'
         else Some newColumn)"

declare scanLeft.simps [code]

text \<open>
  The outer loop \<^verbatim>\<open>while (clipLength-- > 1 && newColumn < 0)\<close>: the test reads
  \<open>clipLength\<close> and then decrements it, so the body sees one less.
\<close>

function clipLoop :: "string \<Rightarrow> string \<Rightarrow> int \<Rightarrow> int \<Rightarrow> int \<Rightarrow> int option" where
  "clipLoop stackLineOfCode sourceLineOfCode column clipLength newColumn =
     (if clipLength > 1 \<and> newColumn < 0 then
        (let clip = js_substr stackLineOfCode column (clipLength - 1);
             clipLength' = min (clipLength - 1) (int (length clip))
         in case scanLeft sourceLineOfCode clip (column + 1) newColumn of
              None \<Rightarrow> None
            | Some newColumn' \<Rightarrow>
                clipLoop stackLineOfCode sourceLineOfCode column clipLength' newColumn')
      else Some newColumn)"
  by pat_completeness auto
termination
  by (relation "measure (\<lambda>(g, s, column, clipLength, newColumn). nat clipLength)") auto

declare clipLoop.simps [simp del]

text \<open>\<^verbatim>\<open>let clipLength = 6; let newColumn = -1\<close>, then the loop.\<close>

definition recoverColumn :: "string \<Rightarrow> string \<Rightarrow> int \<Rightarrow> int option" where
  "recoverColumn stackLineOfCode sourceLineOfCode column =
     clipLoop stackLineOfCode sourceLineOfCode column 6 (-1)"

subsection \<open>\<open>maskStackLines\<close>, \<open>fillStackLines\<close>, \<open>maskStack\<close>, \<open>maskParserStack\<close>\<close>

text \<open>
  Lines 199 to 201: \<^verbatim>\<open>if (stackLines[0].startsWith("repl:")) stackLines.shift()\<close>.
\<close>

definition shiftRepl :: "jsval list \<Rightarrow> error + jsval list" where
  "shiftRepl stackLines =
     (case at stackLines 0 of
        Undefined \<Rightarrow> Inl TypeError
      | Str header \<Rightarrow>
          Inr (if js_startsWith header ''repl:'' then tl stackLines else stackLines))"

text \<open>
  The array \<open>stackLines\<close> is changed in place by the source; the model returns the new
  array. A method call on \<open>undefined\<close> is a TypeError. The first pass of the column
  loop always runs (\<open>6 > 1\<close> and \<open>-1 < 0\<close>), so \<open>stackLineOfCode.substr\<close> and
  \<open>sourceLineOfCode.lastIndexOf\<close> are always reached.
\<close>

definition maskStackLines :: "jsval list \<Rightarrow> string \<Rightarrow> (error + jsval list) option" where
  "maskStackLines stackLines sourceCode =
     (case exec lineNumRegExp (toString (at stackLines 0)) of
        None \<Rightarrow> Some (Inr stackLines)
      | Some locMatch \<Rightarrow>
         (case at stackLines 2 of
            Undefined \<Rightarrow> Some (Inl TypeError)
          | Str indicator \<Rightarrow>
             (let lineNum = toNumber (toString (group locMatch 1));
                  column = js_indexOf indicator CHR ''^'';
                  lines = map Str (js_split sourceCode);
                  sourceLineOfCode = at lines (lineNum - 1);
                  stackLineOfCode = at stackLines 1;
                  stackLines1 = stackLines[1 := sourceLineOfCode]
              in case stackLineOfCode of
                   Undefined \<Rightarrow> Some (Inl TypeError)
                 | Str stackLine \<Rightarrow>
                    (case sourceLineOfCode of
                       Undefined \<Rightarrow> Some (Inl TypeError)
                     | Str sourceLine \<Rightarrow>
                        (case recoverColumn stackLine sourceLine column of
                           None \<Rightarrow> None
                         | Some newColumn \<Rightarrow>
                            (if newColumn < 0
                             then Some (shiftRepl (take 2 stackLines1 @ drop 3 stackLines1))
                             else if newColumn < column then
                               (case at stackLines1 5 of
                                  Undefined \<Rightarrow> Some (Inl TypeError)
                                | Str frame \<Rightarrow>
                                    Some (shiftRepl (stackLines1
                                      [2 := Str (replicate (nat newColumn) CHR '' '' @ ''^''),
                                       5 := Str (js_replace columnNumRegExp frame
                                                   (showNum newColumn))])))
                             else Some (shiftRepl stackLines1)))))))"

text \<open>
  \<open>fillStackLines\<close>: only the first match is tested against \<open>null\<close>; the other two are
  indexed as they come. \<open>unshift\<close> puts the four new lines in front. The line number
  is written back in decimal digits, as JavaScript writes a number below \<open>2^53\<close>; a
  larger one is the number of no line (a text has fewer characters), and the code line is
  then \<open>undefined\<close>.
\<close>

definition fillStackLines :: "jsval list \<Rightarrow> string \<Rightarrow> string \<Rightarrow> error + jsval list" where
  "fillStackLines stackLines sourceCode compiledCode =
     (let stackFrame = toString (at stackLines 1)
      in case exec lineNumRegExp stackFrame of
           None \<Rightarrow> Inr stackLines
         | Some locMatch \<Rightarrow>
            (case exec columnNumRegExp stackFrame of
               None \<Rightarrow> Inl TypeError
             | Some columnMatch \<Rightarrow>
                (case exec filePathRegExp stackFrame of
                   None \<Rightarrow> Inl TypeError
                 | Some pathMatch \<Rightarrow>
                    (let column = toNumber (toString (group columnMatch 1));
                         filePath = toString (group pathMatch 1);
                         lineNum = toNumber (toString (group locMatch 1));
                         lines = map Str (js_split compiledCode)
                     in case js_repeat column of
                          Inl e \<Rightarrow> Inl e
                        | Inr spaces \<Rightarrow>
                            Inr ([Str (filePath @ '':'' @ showNum lineNum),
                                  at lines (lineNum - 1),
                                  Str (spaces @ ''^''),
                                  Str []] @ stackLines)))))"

definition maskStack :: "string \<Rightarrow> string \<Rightarrow> string \<Rightarrow> string option \<Rightarrow> (error + string) option" where
  "maskStack filename stack sourceCode compiledCode =
     (let stackLines = map Str (js_split (scrubStack filename stack));
          filled =
            (case compiledCode of
               None \<Rightarrow> Inr stackLines
             | Some compiled \<Rightarrow>
                 if exec lineNumRegExp (toString (at stackLines 0)) = None
                 then fillStackLines stackLines sourceCode compiled
                 else Inr stackLines)
      in case filled of
           Inl e \<Rightarrow> Some (Inl e)
         | Inr stackLines1 \<Rightarrow>
            (case maskStackLines stackLines1 sourceCode of
               None \<Rightarrow> None
             | Some (Inl e) \<Rightarrow> Some (Inl e)
             | Some (Inr stackLines2) \<Rightarrow> Some (Inr (js_join stackLines2))))"

text \<open>
  \<open>maskParserStack\<close>: \<open>parts\<close> is the match or \<open>[]\<close>, so each part may be
  \<open>undefined\<close>. \<open>lineNum - 1\<close> of an absent \<open>lineNum\<close> is \<open>NaN\<close>, which indexes
  nothing, and \<open>" ".repeat(undefined)\<close> is the empty string. \<open>splice(0, 1, \<dots>)\<close>
  replaces the first line by the new ones.
\<close>

definition maskParserStack :: "string \<Rightarrow> string \<Rightarrow> string \<Rightarrow> error + string" where
  "maskParserStack filename stack sourceCode =
     (let stackLines = map Str (js_split (scrubStack filename stack));
          parts = exec errorMessageRegExp (toString (at stackLines 0));
          part = (\<lambda>i. case parts of None \<Rightarrow> Undefined | Some m \<Rightarrow> group m i);
          desc = part 1;
          lineNum = part 2;
          column = part 3;
          filePath = part 4;
          spliceArgs =
            (case filePath of
               Undefined \<Rightarrow> []
             | Str path \<Rightarrow> [Str (path @ '':'' @ toString lineNum)]);
          lines = map Str (js_split sourceCode);
          sourceLine =
            (case lineNum of
               Undefined \<Rightarrow> Undefined
             | Str n \<Rightarrow> at lines (toNumber n - 1))
      in case js_repeat (case column of Undefined \<Rightarrow> 0 | Str n \<Rightarrow> toNumber n) of
           Inl e \<Rightarrow> Inl e
         | Inr spaces \<Rightarrow>
             Inr (js_join (spliceArgs @ [sourceLine, Str (spaces @ ''^''), Str [], desc]
                           @ drop 1 stackLines)))"

section \<open>The proxy of \<open>ErrorUtils.maskStackTrace\<close>\<close>

text \<open>
  The error object: its \<open>stack\<close> property, what \<open>utils.isParseError\<close> says of it, and
  its other properties.
\<close>

record failure =
  stack :: string
  isParseError :: bool
  properties :: "string \<Rightarrow> jsval"

text \<open>
  \<open>sourceCode\<close> is a text or a function that produces it. A function of JavaScript has
  effects: a call returns a text, raises or does not return (\<open>None\<close>), and the next
  call may do otherwise. Such a function is given by what its successive calls do and by
  the number of calls made so far; \<open>call\<close> is the one way to use it, and it counts.
\<close>

record producer =
  outcomes :: "nat \<Rightarrow> (error + string) option"
  calls :: nat

definition call :: "producer \<Rightarrow> (error + string) option \<times> producer" where
  "call p = (outcomes p (calls p), p\<lparr>calls := Suc (calls p)\<rparr>)"

text \<open>
  The variable \<open>sourceCode\<close> of \<open>maskStackTrace\<close> holds a text that was passed in, a
  function, or the text that a call of the function returned; in the last case the
  function is kept beside the text, for the variable has lost it but its calls have
  happened.
\<close>

datatype source = Text string | Function producer | Produced string producer

text \<open>
  Line 40, \<^verbatim>\<open>sourceCode = typeof sourceCode === "function" ? sourceCode() : sourceCode\<close>:
  the text (or the raise, or no return) and what the variable holds afterwards. When the
  call does not return a text the assignment is not reached, and the variable still
  holds the function.
\<close>

fun evalSource :: "source \<Rightarrow> (error + string) option \<times> source" where
  "evalSource (Text s) = (Some (Inr s), Text s)"
| "evalSource (Produced s p) = (Some (Inr s), Produced s p)"
| "evalSource (Function p) =
     (case fst (call p) of
        None \<Rightarrow> (None, Function (snd (call p)))
      | Some (Inl e) \<Rightarrow> (Some (Inl e), Function (snd (call p)))
      | Some (Inr s) \<Rightarrow> (Some (Inr s), Produced s (snd (call p))))"

text \<open>The number of calls made so far of the function behind \<open>sourceCode\<close>.\<close>

fun callsOf :: "source \<Rightarrow> nat" where
  "callsOf (Text s) = 0"
| "callsOf (Function p) = calls p"
| "callsOf (Produced s p) = calls p"

text \<open>
  The proxy's state is the target object and the two variables its handler closes over,
  \<open>trapSet\<close> and \<open>sourceCode\<close>, beside the constant \<open>compiledCode\<close>.
\<close>

record proxy =
  target :: failure
  trapSet :: bool
  source :: source
  compiled :: "string option"

definition maskStackTrace :: "failure \<Rightarrow> source \<Rightarrow> string option \<Rightarrow> proxy" where
  "maskStackTrace error sourceCode compiledCode =
     \<lparr>target = error, trapSet = False, source = sourceCode, compiled = compiledCode\<rparr>"

text \<open>
  The \<open>get\<close> trap. \<open>decorateStackTrace\<close> calls into the host (\<open>process.binding("util")\<close>);
  what the host does to the error object is the parameter \<open>decorateStackTrace\<close>.
  The result is the value read, a raise, or \<open>None\<close> when the read does not return;
  the second component is the proxy afterwards. The statements run in the order of the
  source: \<open>sourceCode\<close> is evaluated first, and a call that raises leaves the trap
  there, with \<open>trapSet\<close> still false; then \<open>trapSet\<close> is set, the error is decorated
  and masked, and \<open>error.stack\<close> is assigned when the masking has returned.
\<close>

definition get :: "string \<Rightarrow> (failure \<Rightarrow> failure) \<Rightarrow> proxy \<Rightarrow> string
    \<Rightarrow> (error + jsval) option \<times> proxy" where
  "get filename decorateStackTrace w key =
     (if key = ''stack'' \<and> \<not> trapSet w then
        (case fst (evalSource (source w)) of
           None \<Rightarrow> (None, w\<lparr>source := snd (evalSource (source w))\<rparr>)
         | Some (Inl e) \<Rightarrow> (Some (Inl e), w\<lparr>source := snd (evalSource (source w))\<rparr>)
         | Some (Inr sourceCode) \<Rightarrow>
            (let error = decorateStackTrace (target w);
                 w1 = w\<lparr>source := snd (evalSource (source w)), trapSet := True,
                        target := error\<rparr>
             in case (if isParseError error
                      then Some (maskParserStack filename (stack error) sourceCode)
                      else maskStack filename (stack error) sourceCode (compiled w)) of
                  None \<Rightarrow> (None, w1)
                | Some (Inl e) \<Rightarrow> (Some (Inl e), w1)
                | Some (Inr masked) \<Rightarrow>
                    (Some (Inr (Str masked)), w1\<lparr>target := error\<lparr>stack := masked\<rparr>\<rparr>)))
      else (Some (Inr (if key = ''stack'' then Str (stack (target w))
                       else properties (target w) key)), w))"

text \<open>
  \<open>n\<close> reads of \<open>proxy.stack\<close>, one after the other; a read that does not return is the
  last one.
\<close>

fun reads :: "string \<Rightarrow> (failure \<Rightarrow> failure) \<Rightarrow> proxy \<Rightarrow> nat
    \<Rightarrow> (error + jsval) option list \<times> proxy" where
  "reads filename decorateStackTrace w 0 = ([], w)"
| "reads filename decorateStackTrace w (Suc n) =
     (case fst (get filename decorateStackTrace w ''stack'') of
        None \<Rightarrow> ([None], snd (get filename decorateStackTrace w ''stack''))
      | Some r \<Rightarrow>
          (Some r # fst (reads filename decorateStackTrace
                           (snd (get filename decorateStackTrace w ''stack'')) n),
           snd (reads filename decorateStackTrace
                  (snd (get filename decorateStackTrace w ''stack'')) n)))"

text \<open>
  Three objects for examples: a function that raises at its first call and returns the
  text \<open>y = f(1)\<close> from then on, an error whose text the host has decorated, and an
  error whose message holds a port number.
\<close>

definition raisesOnce :: producer where
  "raisesOnce =
     \<lparr>outcomes = (\<lambda>k. if k = 0 then Some (Inl TypeError) else Some (Inr ''y = f(1)'')),
      calls = 0\<rparr>"

definition decoratedError :: failure where
  "decoratedError =
     \<lparr>stack = js_join [Str ''/x/y.js:1'', Str ''var y = f(1);'',
                       Str (replicate 8 CHR '' '' @ ''^''), Str [],
                       Str ''ReferenceError: f is not defined'',
                       Str ''    at Object.<anonymous> (/x/y.js:1:9)''],
      isParseError = False, properties = (\<lambda>key. Undefined)\<rparr>"

definition refusedError :: failure where
  "refusedError =
     \<lparr>stack = js_join [Str ''Error: connect ECONNREFUSED 127.0.0.1:3000'',
                       Str ''    at connect (/x/y.js:1:15)'',
                       Str ''    at main (/x/y.js:7:3)''],
      isParseError = False, properties = (\<lambda>key. Undefined)\<rparr>"

section \<open>Descriptions of the column search\<close>

text \<open>
  The search as the specification words it: for the clip lengths 6 down to 2, the clip
  is the substring of the generated line at the reported column, and the first length
  whose clip has a last occurrence in the original line at or before the position one
  greater than the reported column gives that occurrence; \<open>-1\<close> when no length does.
\<close>

fun specSearch :: "string \<Rightarrow> string \<Rightarrow> int \<Rightarrow> int list \<Rightarrow> int" where
  "specSearch generated original column [] = -1"
| "specSearch generated original column (n # ns) =
     (let index = js_lastIndexOf original (js_substr generated column n) (column + 1)
      in if index > -1 then index else specSearch generated original column ns)"

definition recoverColumn_spec :: "string \<Rightarrow> string \<Rightarrow> int \<Rightarrow> int" where
  "recoverColumn_spec generated original column =
     specSearch generated original column [6, 5, 4, 3, 2]"

text \<open>
  What the two loops of the source compute, without the loops: \<open>t\<close> occurs in \<open>s\<close> at
  \<open>k\<close>; the leftmost occurrence at or before \<open>n\<close>; the position that \<open>lastIndexOf\<close>
  starts from; and, for the clip lengths \<open>n\<close> down to 1, the leftmost occurrence of the
  first clip that occurs at or before the reported column (\<open>-1\<close> when none does).
\<close>

definition occursAt :: "string \<Rightarrow> string \<Rightarrow> nat \<Rightarrow> bool" where
  "occursAt s t k = js_startsWith (drop k s) t"

definition leftmostUpTo :: "string \<Rightarrow> string \<Rightarrow> nat \<Rightarrow> nat option" where
  "leftmostUpTo s t n = find (occursAt s t) [0..<Suc n]"

definition clampPos :: "string \<Rightarrow> int \<Rightarrow> nat" where
  "clampPos s position = nat (min (max position 0) (int (length s)))"

fun leftmostClip :: "string \<Rightarrow> string \<Rightarrow> int \<Rightarrow> nat \<Rightarrow> int" where
  "leftmostClip g s column 0 = -1"
| "leftmostClip g s column (Suc n) =
     (case leftmostUpTo s (js_substr g column (int (Suc n))) (clampPos s column) of
        Some k \<Rightarrow> int k
      | None \<Rightarrow> leftmostClip g s column n)"

definition recoverLeftmost :: "string \<Rightarrow> string \<Rightarrow> int \<Rightarrow> int" where
  "recoverLeftmost g s column = leftmostClip g s column 5"

text \<open>
  A matcher state within one line: no line feed in the rest of the input nor in a
  capture.
\<close>

definition oneLine :: "mstate \<Rightarrow> bool" where
  "oneLine st =
     (CHR 0x0A \<notin> set (fst (snd st)) \<and> list_all (\<lambda>c. CHR 0x0A \<notin> set (snd c)) (snd (snd st)))"

section \<open>Lines of a text\<close>

lemma pushChar_not_Nil: "pushChar c ls \<noteq> []"
  by (cases ls) simp_all

lemma js_split_not_Nil: "js_split s \<noteq> []"
  by (induction s) (simp_all add: pushChar_not_Nil)

lemma set_pushChar: "ls \<noteq> [] \<Longrightarrow> l \<in> set (pushChar c ls) \<Longrightarrow> l \<in> set ls \<or> (\<exists>l'. l = c # l' \<and> l' \<in> set ls)"
  by (cases ls) auto

lemma js_split_no_newline: "l \<in> set (js_split s) \<Longrightarrow> CHR 0x0A \<notin> set l"
proof (induction s arbitrary: l)
  case Nil
  then show ?case by simp
next
  case (Cons c cs)
  show ?case
  proof (cases "c = CHR 0x0A")
    case True
    with Cons show ?thesis by auto
  next
    case False
    with Cons.prems have "l \<in> set (pushChar c (js_split cs))" by simp
    then consider "l \<in> set (js_split cs)" | l' where "l = c # l'" "l' \<in> set (js_split cs)"
      using set_pushChar [OF js_split_not_Nil] by blast
    then show ?thesis
      using Cons.IH False by cases auto
  qed
qed

lemma js_join_pushChar:
  "ls \<noteq> [] \<Longrightarrow> js_join (map Str (pushChar c ls)) = c # js_join (map Str ls)"
proof (cases ls)
  case Nil
  assume "ls \<noteq> []"
  with Nil show ?thesis by simp
next
  case (Cons l ls')
  then show ?thesis by (cases ls') simp_all
qed

lemma js_join_split: "js_join (map Str (js_split s)) = s"
proof (induction s)
  case Nil
  then show ?case by simp
next
  case (Cons c cs)
  show ?case
  proof (cases "c = CHR 0x0A")
    case True
    obtain l ls where "js_split cs = l # ls"
      using js_split_not_Nil by (cases "js_split cs") auto
    with True Cons show ?thesis by simp
  next
    case False
    with Cons show ?thesis by (simp add: js_join_pushChar js_split_not_Nil)
  qed
qed

lemma js_split_line: "CHR 0x0A \<notin> set l \<Longrightarrow> js_split l = [l]"
  by (induction l) auto

lemma js_split_append:
  "CHR 0x0A \<notin> set l \<Longrightarrow> js_split (l @ CHR 0x0A # s) = l # js_split s"
  by (induction l) auto

lemma js_split_join:
  "ls \<noteq> [] \<Longrightarrow> (\<And>l. l \<in> set ls \<Longrightarrow> CHR 0x0A \<notin> set l) \<Longrightarrow> js_split (js_join (map Str ls)) = ls"
proof (induction ls rule: induct_list012)
  case 1
  then show ?case by simp
next
  case (2 l)
  then show ?case by (simp add: js_split_line)
next
  case (3 l m ls)
  have "js_split (js_join (map Str (m # ls))) = m # ls"
    using 3 by simp
  moreover have "CHR 0x0A \<notin> set l" using 3 by simp
  ultimately show ?case by (simp add: js_split_append)
qed

lemma js_includes_Nil: "js_includes s []"
  by (induction s) (simp_all add: js_startsWith_def)

lemma scrubStack_idem: "scrubStack f (scrubStack f s) = scrubStack f s"
proof (cases "filter (\<lambda>line. \<not> js_includes line f) (js_split s) = []")
  case True
  then have e: "scrubStack f s = []" by (simp add: scrubStack_def)
  show ?thesis unfolding e by (simp add: scrubStack_def)
next
  case False
  let ?ls = "filter (\<lambda>line. \<not> js_includes line f) (js_split s)"
  have "js_split (js_join (map Str ?ls)) = ?ls"
    using False by (intro js_split_join) (auto dest: js_split_no_newline)
  then show ?thesis by (simp add: scrubStack_def)
qed

section \<open>The column search\<close>

lemma leftmostUpTo_Some:
  "leftmostUpTo s t n = Some k \<longleftrightarrow> k \<le> n \<and> occursAt s t k \<and> (\<forall>j<k. \<not> occursAt s t j)"
proof -
  have "find (occursAt s t) [0..<Suc n] = Some k \<longleftrightarrow>
        (\<exists>i<Suc n. occursAt s t ([0..<Suc n] ! i) \<and> k = [0..<Suc n] ! i \<and> (\<forall>j<i. \<not> occursAt s t ([0..<Suc n] ! j)))"
    by (simp only: find_Some_iff length_upt) simp
  also have "\<dots> \<longleftrightarrow> k \<le> n \<and> occursAt s t k \<and> (\<forall>j<k. \<not> occursAt s t j)"
    by (auto simp del: upt_Suc simp: nth_upt less_Suc_eq_le)
  finally show ?thesis by (simp add: leftmostUpTo_def)
qed

lemma leftmostUpTo_None:
  "leftmostUpTo s t n = None \<longleftrightarrow> (\<forall>k\<le>n. \<not> occursAt s t k)"
  by (auto simp del: upt_Suc simp: leftmostUpTo_def find_None_iff less_Suc_eq_le)

lemma lastIndexFrom_none:
  "lastIndexFrom s t n = -1 \<longleftrightarrow> (\<forall>k\<le>n. \<not> occursAt s t k)"
  by (induction n) (auto simp: occursAt_def le_Suc_eq)

lemma lastIndexFrom_some:
  "lastIndexFrom s t n = int k \<longleftrightarrow> k \<le> n \<and> occursAt s t k \<and> (\<forall>j. k < j \<and> j \<le> n \<longrightarrow> \<not> occursAt s t j)"
proof (induction n)
  case 0
  then show ?case by (auto simp: occursAt_def)
next
  case (Suc n)
  show ?case
  proof (cases "occursAt s t (Suc n)")
    case True
    then have "lastIndexFrom s t (Suc n) = int (Suc n)" by (simp add: occursAt_def)
    with True show ?thesis
      by (metis le_Suc_eq le_refl nat_less_le not_less_eq_eq of_nat_eq_iff)
  next
    case False
    then have "lastIndexFrom s t (Suc n) = lastIndexFrom s t n" by (simp add: occursAt_def)
    with False Suc show ?thesis
      by (metis le_Suc_eq)
  qed
qed

lemma lastIndexFrom_cases:
  "lastIndexFrom s t n = -1 \<or> (\<exists>k\<le>n. lastIndexFrom s t n = int k)"
  by (induction n) auto

lemma scanLeft_diverges:
  assumes "js_startsWith s t"
  shows "scanLeft s t 0 nc = None"
proof (rule ccontr)
  assume "scanLeft s t 0 nc \<noteq> None"
  then obtain y where y: "scanLeft s t 0 nc = Some y" by auto
  have "\<not> (index = 0 \<and> js_startsWith s' t')"
    if "scanLeft s' t' index nc' = Some y'" for s' t' index nc' y'
  proof (rule scanLeft.raw_induct
      [where P = "\<lambda>s' t' index nc' y'. \<not> (index = 0 \<and> js_startsWith s' t')", OF _ that])
    fix scan s' t' nc' y' and index :: int
    assume IH: "\<And>a b c d y. scan a b c d = Some y \<Longrightarrow> \<not> (c = 0 \<and> js_startsWith a b)"
      and step: "(let index' = js_lastIndexOf s' t' (index - 1)
                  in if - 1 < index' then scan s' t' index' index' else Some nc') = Some y'"
    show "\<not> (index = 0 \<and> js_startsWith s' t')"
    proof
      assume a: "index = 0 \<and> js_startsWith s' t'"
      then have "js_lastIndexOf s' t' (index - 1) = 0"
        by (simp add: js_lastIndexOf_def)
      with step have "scan s' t' 0 0 = Some y'" by simp
      from IH [OF this] a show False by simp
    qed
  qed
  from this [OF y] assms show False by simp
qed


lemma clampPos_le: "clampPos s p \<le> length s"
  by (simp add: clampPos_def)

lemma clampPos_pred: "0 < k \<Longrightarrow> k \<le> length s \<Longrightarrow> clampPos s (int k - 1) = k - 1"
  by (simp add: clampPos_def)

lemma scanLeft_leftmost:
  "clampPos s (index - 1) = n \<Longrightarrow>
   scanLeft s t index nc =
     (case leftmostUpTo s t n of
        None \<Rightarrow> Some nc
      | Some k \<Rightarrow> if k = 0 then None else Some (int k))"
proof (induction n arbitrary: index nc rule: less_induct)
  case (less n)
  have n: "js_lastIndexOf s t (index - 1) = lastIndexFrom s t n"
    using less.prems by (simp add: js_lastIndexOf_def clampPos_def)
  have nlen: "n \<le> length s"
    using less.prems clampPos_le by blast
  consider (none) "lastIndexFrom s t n = -1"
    | (some) k where "k \<le> n" "lastIndexFrom s t n = int k"
    using lastIndexFrom_cases by blast
  then show ?case
  proof cases
    case none
    then have "leftmostUpTo s t n = None"
      by (simp add: lastIndexFrom_none leftmostUpTo_None)
    with none n show ?thesis
      by (simp add: scanLeft.simps [of s t index nc])
  next
    case (some k)
    then have occ: "occursAt s t k"
      by (simp add: lastIndexFrom_some)
    have step: "scanLeft s t index nc = scanLeft s t (int k) (int k)"
      using some n by (simp add: scanLeft.simps [of s t index nc] Let_def)
    show ?thesis
    proof (cases "k = 0")
      case True
      with occ have "leftmostUpTo s t n = Some 0"
        by (simp add: leftmostUpTo_Some)
      moreover have "scanLeft s t 0 0 = None"
        using occ True by (intro scanLeft_diverges) (simp add: occursAt_def)
      ultimately show ?thesis using step True by simp
    next
      case False
      then have c: "clampPos s (int k - 1) = k - 1"
        using some(1) nlen by (intro clampPos_pred) auto
      have lt: "k - 1 < n" using False some(1) by simp
      note IH = less.IH [OF lt c, of "int k"]
      show ?thesis
      proof (cases "leftmostUpTo s t (k - 1)")
        case None
        then have "\<forall>j<k. \<not> occursAt s t j"
          using False by (auto simp: leftmostUpTo_None)
        with occ some(1) have "leftmostUpTo s t n = Some k"
          by (simp add: leftmostUpTo_Some)
        with None IH step False show ?thesis by simp
      next
        case (Some j)
        then have "leftmostUpTo s t n = Some j"
          using lt by (auto simp: leftmostUpTo_Some)
        with Some IH step show ?thesis by simp
      qed
    qed
  qed
qed

lemma leftmostUpTo_empty: "leftmostUpTo s [] n = Some 0"
  by (simp add: leftmostUpTo_Some occursAt_def js_startsWith_def)

lemma js_substr_take:
  "js_substr g column len =
     take (nat len) (drop (nat (if column < 0 then max (int (length g) + column) 0
                                else min column (int (length g)))) g)"
proof -
  define start where
    "start = (if column < 0 then max (int (length g) + column) 0 else min column (int (length g)))"
  have s: "0 \<le> start" "start \<le> int (length g)"
    by (auto simp: start_def)
  define avail where "avail = int (length g) - start"
  have a: "0 \<le> avail" "length (drop (nat start) g) = nat avail"
    using s by (auto simp: avail_def)
  have "js_substr g column len =
      (if min (max len 0) avail \<le> 0 then []
       else take (nat (min (max len 0) avail)) (drop (nat start) g))"
    by (simp add: js_substr_def Let_def start_def avail_def)
  also have "\<dots> = take (nat (min (max len 0) avail)) (drop (nat start) g)"
    by simp
  also have "\<dots> = take (nat len) (drop (nat start) g)"
  proof (cases "len \<le> avail")
    case True
    then show ?thesis by (simp add: max_def min_def)
  next
    case False
    then have "nat (min (max len 0) avail) = nat avail" "nat avail \<le> nat len"
      using a(1) by (auto simp: max_def min_def)
    then show ?thesis using a(2) by simp
  qed
  finally show ?thesis by (simp add: start_def)
qed

lemma js_substr_length: "0 \<le> len \<Longrightarrow> int (length (js_substr g column len)) \<le> len"
  by (simp add: js_substr_take)

lemma js_substr_capped:
  assumes "int (length (js_substr g column n)) \<le> j" "j \<le> n"
  shows "js_substr g column j = js_substr g column n"
proof -
  define r where
    "r = drop (nat (if column < 0 then max (int (length g) + column) 0
                    else min column (int (length g)))) g"
  have n: "js_substr g column n = take (nat n) r" and j: "js_substr g column j = take (nat j) r"
    by (simp_all add: js_substr_take r_def)
  show ?thesis
  proof (cases "length r \<le> nat n")
    case True
    then have "length (take (nat n) r) = length r" by simp
    with assms(1) n have "length r \<le> nat j" by simp
    with True show ?thesis by (simp add: n j)
  next
    case False
    then have "length (take (nat n) r) = nat n" by simp
    with assms n have "nat j = nat n" by (simp split: if_splits)
    then show ?thesis by (simp add: n j)
  qed
qed

lemma leftmostClip_skip:
  assumes "l \<le> m"
    and "\<And>j. l < j \<Longrightarrow> j \<le> m \<Longrightarrow>
           leftmostUpTo s (js_substr g column (int j)) (clampPos s column) = None"
  shows "leftmostClip g s column m = leftmostClip g s column l"
  using assms
proof (induction m)
  case 0
  then show ?case by simp
next
  case (Suc m)
  show ?case
  proof (cases "l = Suc m")
    case True
    then show ?thesis by simp
  next
    case False
    with Suc.prems have "l \<le> m" by simp
    moreover have "leftmostUpTo s (js_substr g column (int (Suc m))) (clampPos s column) = None"
      using Suc.prems(1) False by (intro Suc.prems(2)) simp_all
    ultimately show ?thesis using Suc by simp
  qed
qed

lemma clipLoop_found: "0 \<le> nc \<Longrightarrow> clipLoop g s column cl nc = Some nc"
  by (subst clipLoop.simps) simp

lemma clipLoop_leftmost:
  "clipLoop g s column (int (Suc n)) (-1) =
     (if leftmostClip g s column n = 0 then None else Some (leftmostClip g s column n))"
proof (induction n rule: less_induct)
  case (less n)
  show ?case
  proof (cases n)
    case 0
    then show ?thesis by (subst clipLoop.simps) simp
  next
    case (Suc m)
    let ?clip = "js_substr g column (int (Suc m))"
    have scan: "scanLeft s ?clip (column + 1) (-1) =
          (case leftmostUpTo s ?clip (clampPos s column) of
             None \<Rightarrow> Some (-1)
           | Some k \<Rightarrow> if k = 0 then None else Some (int k))"
      by (rule scanLeft_leftmost) simp
    have unfold: "clipLoop g s column (int (Suc n)) (-1) =
        (case scanLeft s ?clip (column + 1) (-1) of
           None \<Rightarrow> None
         | Some nc \<Rightarrow> clipLoop g s column (min (int (Suc m)) (int (length ?clip))) nc)"
    proof -
      have e: "int (Suc n) - 1 = int (Suc m)" "1 < int (Suc n)"
        using Suc by simp_all
      show ?thesis
        by (subst clipLoop.simps) (simp only: e Let_def, simp)
    qed
    show ?thesis
    proof (cases "leftmostUpTo s ?clip (clampPos s column)")
      case (Some k)
      then show ?thesis
        using unfold scan Suc by (simp add: clipLoop_found)
    next
      case None
      then have "?clip \<noteq> []"
        using leftmostUpTo_empty by fastforce
      then obtain l where l: "length ?clip = Suc l"
        by (cases ?clip) auto
      have lm: "l \<le> m"
        using js_substr_length [of "int (Suc m)" g column] l by simp
      then have ln: "l < n" using Suc by simp
      have cl: "min (int (Suc m)) (int (length ?clip)) = int (Suc l)"
        using l lm by simp
      have skip: "leftmostClip g s column m = leftmostClip g s column l"
      proof (rule leftmostClip_skip [OF lm])
        fix j assume "l < j" "j \<le> m"
        then have "js_substr g column (int j) = ?clip"
          using l by (intro js_substr_capped) auto
        with None show "leftmostUpTo s (js_substr g column (int j)) (clampPos s column) = None"
          by simp
      qed
      have "clipLoop g s column (int (Suc n)) (-1) = clipLoop g s column (int (Suc l)) (-1)"
        using unfold scan None cl by simp
      also have "\<dots> = (if leftmostClip g s column l = 0 then None
                        else Some (leftmostClip g s column l))"
        by (rule less.IH [OF ln])
      finally show ?thesis
        using Suc None skip by simp
    qed
  qed
qed

lemma recoverColumn_leftmost:
  "recoverColumn g s column =
     (if recoverLeftmost g s column = 0 then None else Some (recoverLeftmost g s column))"
  using clipLoop_leftmost [of g s column 5] by (simp add: recoverColumn_def recoverLeftmost_def)

section \<open>The masking functions\<close>

lemma at_Cons_0: "at (x # xs) 0 = x"
  by (simp add: at_def)

lemma at_Cons_pos: "0 < i \<Longrightarrow> at (x # xs) i = at xs (i - 1)"
  by (auto simp: at_def nat_diff_distrib' nth_Cons split: nat.split)

lemma at_Cons_1: "at (x # y # xs) 1 = y"
  by (simp add: at_Cons_pos at_Cons_0)

lemma at_Cons_2: "at (x # y # z # xs) 2 = z"
  by (simp add: at_Cons_pos at_Cons_0)

lemma at_Cons_5: "at (x0 # x1 # x2 # x3 # x4 # x5 # xs) 5 = x5"
  by (simp add: at_Cons_pos at_Cons_0)

lemma at_Str_split_0: "at (map Str (js_split s)) 0 = Str (hd (js_split s))"
  using js_split_not_Nil [of s] by (cases "js_split s") (simp_all add: at_def)

lemma maskStackLines_no_location:
  "exec lineNumRegExp (toString (at stackLines 0)) = None \<Longrightarrow>
   maskStackLines stackLines sourceCode = Some (Inr stackLines)"
  by (simp add: maskStackLines_def)

lemma maskStack_no_synthesis:
  "maskStack filename raw sourceCode None =
     (case maskStackLines (map Str (js_split (scrubStack filename raw))) sourceCode of
        None \<Rightarrow> None
      | Some (Inl e) \<Rightarrow> Some (Inl e)
      | Some (Inr stackLines) \<Rightarrow> Some (Inr (js_join stackLines)))"
  by (simp add: maskStack_def)

lemma maskStack_no_location:
  assumes "exec lineNumRegExp (hd (js_split (scrubStack filename raw))) = None"
  shows "maskStack filename raw sourceCode None = Some (Inr (scrubStack filename raw))"
  using assms
  by (simp add: maskStack_no_synthesis maskStackLines_no_location at_Str_split_0 js_join_split)

lemma maskStackLines_remap:
  assumes "exec lineNumRegExp header = Some locMatch"
    and "at (map Str (js_split sourceCode)) (toNumber (toString (group locMatch 1)) - 1)
         = Str sourceLine"
  shows "maskStackLines (Str header # Str stackLine # Str indicator # rest) sourceCode =
     (case recoverColumn stackLine sourceLine (js_indexOf indicator CHR ''^'') of
        None \<Rightarrow> None
      | Some newColumn \<Rightarrow>
          if newColumn < 0 then Some (shiftRepl (Str header # Str sourceLine # rest))
          else if newColumn < js_indexOf indicator CHR ''^'' then
            (case at (Str header # Str sourceLine # Str indicator # rest) 5 of
               Undefined \<Rightarrow> Some (Inl TypeError)
             | Str frame \<Rightarrow>
                 Some (shiftRepl ((Str header # Str sourceLine # Str indicator # rest)
                   [2 := Str (replicate (nat newColumn) CHR '' '' @ ''^''),
                    5 := Str (js_replace columnNumRegExp frame (showNum newColumn))])))
          else Some (shiftRepl (Str header # Str sourceLine # Str indicator # rest)))"
  using assms unfolding maskStackLines_def
  by (simp add: at_Cons_0 at_Cons_1 at_Cons_2 Let_def split: option.split jsval.split)

lemma leftmostUpTo_lastIndexOf:
  "leftmostUpTo s t (clampPos s column) = None \<longleftrightarrow> js_lastIndexOf s t column = -1"
  by (simp add: leftmostUpTo_None lastIndexFrom_none js_lastIndexOf_def clampPos_def)

lemma leftmostClip_none:
  "(\<And>m. 1 \<le> m \<Longrightarrow> m \<le> n \<Longrightarrow>
        js_lastIndexOf s (js_substr g column (int m)) column = -1) \<Longrightarrow>
   leftmostClip g s column n = -1"
proof (induction n)
  case 0
  then show ?case by simp
next
  case (Suc n)
  have "js_lastIndexOf s (js_substr g column (int (Suc n))) column = -1"
    by (rule Suc.prems) simp_all
  then have "leftmostUpTo s (js_substr g column (int (Suc n))) (clampPos s column) = None"
    by (simp only: leftmostUpTo_lastIndexOf)
  moreover have "leftmostClip g s column n = -1"
    by (rule Suc.IH) (simp add: Suc.prems)
  ultimately show ?case by simp
qed

section \<open>The proxy\<close>

lemma get_after_trap:
  "trapSet w \<Longrightarrow> get filename decorate w ''stack'' = (Some (Inr (Str (stack (target w)))), w)"
  by (simp add: get_def)

lemma reads_after_trap:
  "trapSet w \<Longrightarrow>
   reads filename decorate w n = (replicate n (Some (Inr (Str (stack (target w))))), w)"
  by (induction n) (simp_all add: get_after_trap)

lemma get_raises:
  assumes "\<not> trapSet w" "source w = Function p" "outcomes p (calls p) = Some (Inl e)"
  shows "get filename decorate w ''stack'' =
           (Some (Inl e), w\<lparr>source := Function (p\<lparr>calls := Suc (calls p)\<rparr>)\<rparr>)"
  using assms by (simp add: get_def call_def)

lemma reads_append:
  "None \<notin> set (fst (reads filename decorate w j)) \<Longrightarrow>
   reads filename decorate w (j + m) =
     (fst (reads filename decorate w j)
        @ fst (reads filename decorate (snd (reads filename decorate w j)) m),
      snd (reads filename decorate (snd (reads filename decorate w j)) m))"
proof (induction j arbitrary: w)
  case 0
  then show ?case by simp
next
  case (Suc j)
  show ?case
  proof (cases "fst (get filename decorate w ''stack'')")
    case None
    with Suc.prems show ?thesis by simp
  next
    case (Some r)
    with Suc.prems have
      "None \<notin> set (fst (reads filename decorate (snd (get filename decorate w ''stack'')) j))"
      by simp
    from Suc.IH [OF this] Some show ?thesis by simp
  qed
qed

lemma reads_raises:
  assumes "\<not> trapSet w" "source w = Function p"
    and "\<forall>i<j. \<exists>e. outcomes p (calls p + i) = Some (Inl e)"
  shows "snd (reads filename decorate w j) = w\<lparr>source := Function (p\<lparr>calls := calls p + j\<rparr>)\<rparr>
       \<and> None \<notin> set (fst (reads filename decorate w j))
       \<and> length (fst (reads filename decorate w j)) = j"
  using assms
proof (induction j arbitrary: w p)
  case 0
  then show ?case by simp
next
  case (Suc j)
  from Suc.prems(3) obtain e where e: "outcomes p (calls p) = Some (Inl e)"
    by fastforce
  let ?p = "p\<lparr>calls := Suc (calls p)\<rparr>"
  let ?w = "w\<lparr>source := Function ?p\<rparr>"
  note g = get_raises [OF Suc.prems(1,2) e, of filename decorate]
  have "\<forall>i<j. \<exists>e. outcomes ?p (calls ?p + i) = Some (Inl e)"
    using Suc.prems(3) by (auto dest: spec [of _ "Suc _"])
  then have "snd (reads filename decorate ?w j) = ?w\<lparr>source := Function (?p\<lparr>calls := calls ?p + j\<rparr>)\<rparr>
       \<and> None \<notin> set (fst (reads filename decorate ?w j))
       \<and> length (fst (reads filename decorate ?w j)) = j"
    using Suc.prems(1) by (intro Suc.IH) simp_all
  then show ?case by (simp add: g)
qed

lemma get_produces:
  assumes "\<not> trapSet w" "fst (evalSource (source w)) = Some (Inr text)"
  shows "trapSet (snd (get filename decorate w ''stack''))"
    and "source (snd (get filename decorate w ''stack'')) = snd (evalSource (source w))"
    and "(if isParseError (decorate (target w))
          then Some (maskParserStack filename (stack (decorate (target w))) text)
          else maskStack filename (stack (decorate (target w))) text (compiled w))
         = Some (Inr masked) \<Longrightarrow>
         fst (get filename decorate w ''stack'') = Some (Inr (Str masked)) \<and>
         stack (target (snd (get filename decorate w ''stack''))) = masked"
proof -
  define outcome where
    "outcome = (if isParseError (decorate (target w))
                then Some (maskParserStack filename (stack (decorate (target w))) text)
                else maskStack filename (stack (decorate (target w))) text (compiled w))"
  consider (loop) "outcome = None" | (failed) e where "outcome = Some (Inl e)"
    | (masked) m where "outcome = Some (Inr m)"
    by (cases outcome) (auto elim: sumE)
  then have
    "trapSet (snd (get filename decorate w ''stack'')) \<and>
     source (snd (get filename decorate w ''stack'')) = snd (evalSource (source w)) \<and>
     (outcome = Some (Inr masked) \<longrightarrow>
        fst (get filename decorate w ''stack'') = Some (Inr (Str masked)) \<and>
        stack (target (snd (get filename decorate w ''stack''))) = masked)"
  proof cases
    case loop
    then show ?thesis
      using assms unfolding outcome_def by (simp add: get_def Let_def)
  next
    case (failed e)
    then show ?thesis
      using assms unfolding outcome_def by (simp add: get_def Let_def)
  next
    case (masked m)
    then show ?thesis
      using assms unfolding outcome_def by (simp add: get_def Let_def)
  qed
  then show "trapSet (snd (get filename decorate w ''stack''))"
    and "source (snd (get filename decorate w ''stack'')) = snd (evalSource (source w))"
    and "(if isParseError (decorate (target w))
          then Some (maskParserStack filename (stack (decorate (target w))) text)
          else maskStack filename (stack (decorate (target w))) text (compiled w))
         = Some (Inr masked) \<Longrightarrow>
         fst (get filename decorate w ''stack'') = Some (Inr (Str masked)) \<and>
         stack (target (snd (get filename decorate w ''stack''))) = masked"
    unfolding outcome_def by simp_all
qed

lemma reads_once_trapped:
  assumes "trapSet (snd (get filename decorate w ''stack''))"
  shows "snd (reads filename decorate w (Suc m)) = snd (get filename decorate w ''stack'')"
  using assms by (cases "fst (get filename decorate w ''stack'')") (simp_all add: reads_after_trap)

section \<open>Masking a masked text again\<close>

lemma maskStack_scrubbed:
  "maskStack filename (scrubStack filename raw) sourceCode compiledText =
   maskStack filename raw sourceCode compiledText"
  by (simp add: maskStack_def scrubStack_idem)

lemma js_split_length_append:
  "length (js_split (a @ CHR 0x0A # b)) = length (js_split a) + length (js_split b)"
proof (induction a)
  case Nil
  then show ?case by simp
next
  case (Cons c a)
  have p: "length (pushChar c xs) = length xs" if "xs \<noteq> []" for xs
    using that by (cases xs) simp_all
  show ?case using Cons by (simp add: p js_split_not_Nil)
qed

lemma js_split_length_pos: "Suc 0 \<le> length (js_split s)"
  using js_split_not_Nil [of s] by (cases "js_split s") simp_all

lemma js_split_join_length: "length ys \<le> length (js_split (js_join ys))"
proof (induction ys rule: induct_list012)
  case 1
  then show ?case by simp
next
  case (2 y)
  then show ?case using js_split_length_pos [of "joinText y"] by simp
next
  case (3 y z ys)
  have "length (js_split (js_join (y # z # ys))) =
        length (js_split (joinText y)) + length (js_split (js_join (z # ys)))"
    by (simp add: js_split_length_append)
  with 3 js_split_length_pos [of "joinText y"] show ?case by simp
qed

lemma fillStackLines_shape:
  "fillStackLines xs s c = Inr ys \<Longrightarrow> ys = xs \<or> length ys = length xs + 4"
  by (auto simp: fillStackLines_def Let_def split: option.splits sum.splits)

lemma shiftRepl_length: "shiftRepl xs = Inr ys \<Longrightarrow> length xs \<le> length ys + 1"
  by (auto simp: shiftRepl_def split: jsval.splits if_splits)

lemma maskStackLines_length:
  "maskStackLines xs s = Some (Inr ys) \<Longrightarrow> length xs \<le> length ys + 2"
  by (auto simp: maskStackLines_def Let_def dest!: shiftRepl_length
      split: option.splits jsval.splits if_splits)

lemma js_indexOf_caret: "js_indexOf (replicate k CHR '' '' @ ''^'') CHR ''^'' = int k"
  by (induction k) (simp_all add: Let_def)

lemma leftmostClip_Some:
  "leftmostClip g s column n = int k \<Longrightarrow>
   \<exists>m. 1 \<le> m \<and> m \<le> n \<and>
       leftmostUpTo s (js_substr g column (int m)) (clampPos s column) = Some k"
proof (induction n)
  case 0
  then show ?case by simp
next
  case (Suc n)
  show ?case
  proof (cases "leftmostUpTo s (js_substr g column (int (Suc n))) (clampPos s column)")
    case None
    with Suc obtain m where "1 \<le> m" "m \<le> n"
      "leftmostUpTo s (js_substr g column (int m)) (clampPos s column) = Some k"
      by auto
    then show ?thesis by (intro exI [of _ m]) simp
  next
    case (Some j)
    with Suc.prems have "j = k" by simp
    with Some show ?thesis by (intro exI [of _ "Suc n"]) simp
  qed
qed

lemma recover_again:
  assumes "recoverLeftmost g s column = int k" and "0 < k"
  shows "recoverLeftmost s s (int k) = int k"
proof -
  from assms(1) obtain m where m: "1 \<le> m" "m \<le> 5"
    and l: "leftmostUpTo s (js_substr g column (int m)) (clampPos s column) = Some k"
    unfolding recoverLeftmost_def by (blast dest: leftmostClip_Some)
  let ?t = "js_substr g column (int m)"
  let ?c = "js_substr s (int k) (int 5)"
  from l have occ: "occursAt s ?t k" and left: "\<And>j. j < k \<Longrightarrow> \<not> occursAt s ?t j"
    by (simp_all add: leftmostUpTo_Some)
  have tlen: "length ?t \<le> 5"
    using js_substr_length [of "int m" g column] m by simp
  have t: "take (length ?t) (drop k s) = ?t"
    using occ by (simp add: occursAt_def js_startsWith_def)
  have "?t \<noteq> []"
    using l assms(2) leftmostUpTo_empty [of s "clampPos s column"] by auto
  with t have k: "k < length s"
    by (cases "k < length s") auto
  then have c: "?c = take 5 (drop k s)"
    by (simp add: js_substr_take)
  have tc: "take (length ?t) ?c = ?t"
    using t tlen unfolding c by (simp add: min_absorb1)
  have ck: "occursAt s ?c k"
    unfolding c by (simp add: occursAt_def js_startsWith_def min_def)
  have "\<not> occursAt s ?c j" if "j < k" for j
  proof
    assume "occursAt s ?c j"
    then have "take (length ?c) (drop j s) = ?c"
      by (simp add: occursAt_def js_startsWith_def)
    then have "take (length ?t) (take (length ?c) (drop j s)) = ?t"
      using tc by simp
    moreover have "length ?t \<le> length ?c"
    proof -
      from tc have "length (take (length ?t) ?c) = length ?t"
        by (rule arg_cong)
      then show ?thesis by simp
    qed
    ultimately have "take (length ?t) (drop j s) = ?t"
      by (simp add: min_absorb1)
    then have "occursAt s ?t j"
      by (simp add: occursAt_def js_startsWith_def)
    with left [OF that] show False by simp
  qed
  with ck have "leftmostUpTo s ?c k = Some k"
    by (simp add: leftmostUpTo_Some)
  moreover have "clampPos s (int k) = k"
    using k by (simp add: clampPos_def)
  ultimately show ?thesis
    by (simp add: recoverLeftmost_def eval_nat_numeral)
qed

lemma recoverLeftmost_le:
  assumes "recoverLeftmost g s column = int k"
  shows "k \<le> clampPos s column"
proof -
  from assms obtain m where
    "leftmostUpTo s (js_substr g column (int m)) (clampPos s column) = Some k"
    unfolding recoverLeftmost_def by (blast dest: leftmostClip_Some)
  then show ?thesis by (simp add: leftmostUpTo_Some)
qed

lemma showNum_no_newline: "0 \<le> n \<Longrightarrow> CHR 0x0A \<notin> set (showNum n)"
proof (induction n rule: showNum.induct)
  case (1 n)
  have d: "char_of (48 + d) \<noteq> CHR 0x0A" if "0 \<le> d" "d < 10" for d :: int
  proof
    assume "char_of (48 + d) = CHR 0x0A"
    then have "of_char (char_of (48 + d) :: char) = (of_char (CHR 0x0A) :: int)"
      by simp
    then have "(48 + d) mod 256 = 10"
      by (simp add: of_char_of)
    with that show False by simp
  qed
  show ?case
  proof (cases "n < 10")
    case True
    with 1 d [of n] show ?thesis by (subst showNum.simps) simp
  next
    case False
    have "CHR 0x0A \<notin> set (showNum (n div 10))"
      using 1 False by simp
    moreover have "char_of (48 + n mod 10) \<noteq> CHR 0x0A"
      by (rule d) simp_all
    ultimately show ?thesis using False by (subst showNum.simps) simp
  qed
qed

lemma js_replace_no_newline:
  "CHR 0x0A \<notin> set s \<Longrightarrow> CHR 0x0A \<notin> set t \<Longrightarrow> CHR 0x0A \<notin> set (js_replace x s t)"
  by (auto simp: js_replace_def split: option.splits dest: in_set_takeD in_set_dropD)


lemma shiftRepl_Str:
  "shiftRepl (Str h # xs) = Inr (if js_startsWith h ''repl:'' then xs else Str h # xs)"
  by (simp add: shiftRepl_def at_Cons_0)

lemma remap_fixpoint:
  assumes "exec lineNumRegExp header = Some locMatch"
    and "at (map Str (js_split sourceCode)) (toNumber (toString (group locMatch 1)) - 1)
         = Str sourceLine"
    and "js_indexOf indicator CHR ''^'' = int k"
    and "recoverLeftmost sourceLine sourceLine (int k) = int k"
    and "0 < k"
    and "\<not> js_startsWith header ''repl:''"
  shows "maskStackLines (Str header # Str sourceLine # Str indicator # rest) sourceCode
         = Some (Inr (Str header # Str sourceLine # Str indicator # rest))"
  using assms(3-6)
  by (simp add: maskStackLines_remap [OF assms(1,2)] recoverColumn_leftmost shiftRepl_Str)

lemma at_map_Str: "at (map Str ls) i = Str l \<Longrightarrow> l \<in> set ls"
  by (auto simp: at_def split: if_splits)

lemma at_map_Str_cases: "at (map Str ls) i = Undefined \<or> (\<exists>l. at (map Str ls) i = Str l)"
  by (cases "at (map Str ls) i") simp_all

lemma maskStackLines_again:
  assumes run: "maskStackLines (map Str ls) sourceCode = Some (Inr ys)"
    and loc: "exec lineNumRegExp (hd ls) = Some locMatch"
    and ne: "ls \<noteq> []"
    and nl: "\<And>l. l \<in> set ls \<Longrightarrow> CHR 0x0A \<notin> set l"
  shows "\<exists>ms. ys = map Str ms \<and> ms \<noteq> [] \<and> (\<forall>l\<in>set ms. CHR 0x0A \<notin> set l) \<and>
           (length ms = length ls \<longrightarrow>
              hd ms = hd ls \<and> maskStackLines ys sourceCode = Some (Inr ys))"
proof -
  have hd0: "toString (at (map Str ls) 0) = hd ls"
    using ne by (cases ls) (simp_all add: at_Cons_0)
  have "at (map Str ls) 2 \<noteq> Undefined"
  proof
    assume "at (map Str ls) 2 = Undefined"
    then have "maskStackLines (map Str ls) sourceCode = Some (Inl TypeError)"
      using loc by (simp add: maskStackLines_def hd0)
    with run show False by simp
  qed
  then have "2 < length ls"
    by (auto simp: at_def split: if_splits)
  then obtain header stackLine indicator rest
    where ls: "ls = header # stackLine # indicator # rest"
    by (cases ls; cases "tl ls"; cases "tl (tl ls)") auto
  have loc': "exec lineNumRegExp header = Some locMatch"
    using loc ls by simp
  let ?i = "toNumber (toString (group locMatch 1)) - 1"
  have "at (map Str (js_split sourceCode)) ?i \<noteq> Undefined"
  proof
    assume "at (map Str (js_split sourceCode)) ?i = Undefined"
    then have "maskStackLines (map Str ls) sourceCode = Some (Inl TypeError)"
      using loc' unfolding ls
      by (simp add: maskStackLines_def at_Cons_0 at_Cons_1 at_Cons_2 Let_def)
    with run show False by simp
  qed
  then obtain sourceLine where src: "at (map Str (js_split sourceCode)) ?i = Str sourceLine"
    using at_map_Str_cases [of "js_split sourceCode" ?i] by auto
  then have snl: "CHR 0x0A \<notin> set sourceLine"
    using at_map_Str js_split_no_newline by blast
  let ?column = "js_indexOf indicator CHR ''^''"
  note remap = maskStackLines_remap [OF loc' src, of stackLine indicator "map Str rest"]
  from run remap obtain newColumn
    where rec: "recoverColumn stackLine sourceLine ?column = Some newColumn"
    unfolding ls by (cases "recoverColumn stackLine sourceLine ?column") auto
  then have left: "recoverLeftmost stackLine sourceLine ?column = newColumn"
    and nz: "newColumn \<noteq> 0"
    by (auto simp: recoverColumn_leftmost split: if_splits)
  have rnl: "\<And>l. l \<in> set rest \<Longrightarrow> CHR 0x0A \<notin> set l"
    and hnl: "CHR 0x0A \<notin> set header" and inl: "CHR 0x0A \<notin> set indicator"
    using nl ls by auto
  consider (deleted) "newColumn < 0"
    | (moved) "0 \<le> newColumn" "newColumn < ?column"
    | (kept) "0 \<le> newColumn" "?column \<le> newColumn"
    by linarith
  then show ?thesis
  proof cases
    case deleted
    with run remap rec have ys: "ys = (if js_startsWith header ''repl:'' then map Str (sourceLine # rest)
        else map Str (header # sourceLine # rest))"
      unfolding ls by (simp add: shiftRepl_Str split: if_splits)
    show ?thesis
    proof (cases "js_startsWith header ''repl:''")
      case True
      with ys have "ys = map Str (sourceLine # rest)" by simp
      then show ?thesis
        using snl rnl ls by (intro exI [of _ "sourceLine # rest"]) auto
    next
      case False
      with ys have "ys = map Str (header # sourceLine # rest)" by simp
      then show ?thesis
        using snl rnl hnl ls by (intro exI [of _ "header # sourceLine # rest"]) auto
    qed
  next
    case kept
    with run remap rec have ys: "ys = (if js_startsWith header ''repl:''
        then map Str (sourceLine # indicator # rest)
        else map Str (header # sourceLine # indicator # rest))"
      unfolding ls by (simp add: shiftRepl_Str split: if_splits)
    show ?thesis
    proof (cases "js_startsWith header ''repl:''")
      case True
      with ys have "ys = map Str (sourceLine # indicator # rest)" by simp
      then show ?thesis
        using snl rnl inl ls by (intro exI [of _ "sourceLine # indicator # rest"]) auto
    next
      case False
      with ys have y: "ys = map Str (header # sourceLine # indicator # rest)" by simp
      obtain k where k: "newColumn = int k" "0 < k"
        using kept(1) nz by (cases newColumn) auto
      have "k \<le> clampPos sourceLine ?column"
        using left k by (intro recoverLeftmost_le [of stackLine]) simp
      then have "int k \<le> max ?column 0"
        by (simp add: clampPos_def)
      with k kept have col: "?column = int k" by simp
      have again: "recoverLeftmost sourceLine sourceLine (int k) = int k"
        using left k col by (intro recover_again [of stackLine sourceLine ?column]) simp_all
      have "maskStackLines ys sourceCode = Some (Inr ys)"
        unfolding y using remap_fixpoint [OF loc' src col again k(2) False, of "map Str rest"]
        by simp
      then show ?thesis
        using y snl rnl hnl inl ls
        by (intro exI [of _ "header # sourceLine # indicator # rest"]) auto
    qed
  next
    case moved
    let ?xs = "Str header # Str sourceLine # Str indicator # map Str rest"
    have "at ?xs 5 \<noteq> Undefined"
    proof
      assume "at ?xs 5 = Undefined"
      with run remap rec moved show False
        unfolding ls by simp
    qed
    then have "2 < length rest"
      by (auto simp: at_def split: if_splits)
    then obtain l3 l4 frame frames where rest: "rest = l3 # l4 # frame # frames"
      by (cases rest; cases "tl rest"; cases "tl (tl rest)") auto
    let ?ind = "replicate (nat newColumn) CHR '' '' @ ''^''"
    let ?frame = "js_replace columnNumRegExp frame (showNum newColumn)"
    let ?ms = "header # sourceLine # ?ind # l3 # l4 # ?frame # frames"
    from run remap rec moved have ys: "ys = (if js_startsWith header ''repl:''
        then map Str (tl ?ms) else map Str ?ms)"
      unfolding ls rest by (simp add: shiftRepl_Str at_Cons_5 split: if_splits)
    have fnl: "CHR 0x0A \<notin> set ?frame"
      using rnl rest moved(1) by (intro js_replace_no_newline showNum_no_newline) auto
    have mnl: "\<forall>l\<in>set ?ms. CHR 0x0A \<notin> set l"
      using snl hnl fnl rnl rest by auto
    show ?thesis
    proof (cases "js_startsWith header ''repl:''")
      case True
      with ys have "ys = map Str (tl ?ms)" by simp
      then show ?thesis
        using mnl ls rest by (intro exI [of _ "tl ?ms"]) auto
    next
      case False
      with ys have y: "ys = map Str ?ms" by simp
      obtain k where k: "newColumn = int k" "0 < k"
        using moved(1) nz by (cases newColumn) auto
      have col: "js_indexOf ?ind CHR ''^'' = int k"
        using k by (simp add: js_indexOf_caret)
      have again: "recoverLeftmost sourceLine sourceLine (int k) = int k"
        using left k by (intro recover_again [of stackLine sourceLine ?column]) simp_all
      have "maskStackLines ys sourceCode = Some (Inr ys)"
        unfolding y
        using remap_fixpoint [OF loc' src col again k(2) False,
            of "map Str (l3 # l4 # ?frame # frames)"]
        by simp
      then show ?thesis
        using y mnl ls rest by (intro exI [of _ ?ms]) auto
    qed
  qed
qed


lemma maskStack_located:
  assumes "exec lineNumRegExp (hd (js_split (scrubStack filename raw))) = Some locMatch"
  shows "maskStack filename raw sourceCode compiledText =
     (case maskStackLines (map Str (js_split (scrubStack filename raw))) sourceCode of
        None \<Rightarrow> None
      | Some (Inl e) \<Rightarrow> Some (Inl e)
      | Some (Inr stackLines) \<Rightarrow> Some (Inr (js_join stackLines)))"
  using assms by (cases compiledText) (simp_all add: maskStack_def at_Str_split_0)

lemma maskStack_Inr:
  assumes "(case m of None \<Rightarrow> None | Some (Inl e) \<Rightarrow> Some (Inl e)
            | Some (Inr stackLines) \<Rightarrow> Some (Inr (js_join stackLines))) = Some (Inr masked)"
  obtains ys where "m = Some (Inr ys)" "masked = js_join ys"
  using assms by (cases m) (auto split: sum.splits)

lemma oneLine_simp:
  "oneLine (p, r, c) = (CHR 0x0A \<notin> set r \<and> (\<forall>x\<in>set c. CHR 0x0A \<notin> set (snd x)))"
  by (simp add: oneLine_def list_all_iff)

lemma greedy_inv:
  assumes "\<And>st. oneLine st \<Longrightarrow> k st = Some res \<Longrightarrow> Q"
  shows "oneLine (p, r, c) \<Longrightarrow> greedy cls m p r c k = Some res \<Longrightarrow> Q"
proof (induction r arbitrary: m p)
  case Nil
  then show ?case using assms by (auto split: if_splits)
next
  case (Cons x xs)
  have tl: "oneLine (Suc p, xs, c)"
    using Cons.prems(1) by (simp add: oneLine_simp)
  show ?case
  proof (cases "cls x \<and> greedy cls (m - 1) (Suc p) xs c k = Some res")
    case True
    then show ?thesis using Cons.IH [OF tl] by blast
  next
    case False
    with Cons.prems(2) have "k (p, x # xs, c) = Some res"
      by (auto split: if_splits option.splits)
    with Cons.prems(1) assms show ?thesis by blast
  qed
qed

lemma lazy_inv:
  assumes "\<And>st. oneLine st \<Longrightarrow> k st = Some res \<Longrightarrow> Q"
  shows "oneLine (p, r, c) \<Longrightarrow> lazy cls m p r c k = Some res \<Longrightarrow> Q"
proof (induction r arbitrary: m p)
  case Nil
  then show ?case using assms by (auto split: if_splits)
next
  case (Cons x xs)
  have tl: "oneLine (Suc p, xs, c)"
    using Cons.prems(1) by (simp add: oneLine_simp)
  show ?case
  proof (cases "m = 0 \<and> k (p, x # xs, c) = Some res")
    case True
    with Cons.prems(1) assms show ?thesis by blast
  next
    case False
    with Cons.prems(2) have "lazy cls (m - 1) (Suc p) xs c k = Some res"
      by (auto split: if_splits option.splits)
    then show ?thesis using Cons.IH [OF tl] by blast
  qed
qed

lemma oneLine_drop: "oneLine (p, r, c) \<Longrightarrow> oneLine (q, drop n r, c)"
  by (auto simp: oneLine_simp dest: in_set_dropD)

lemma oneLine_capture:
  "oneLine (p, r, c) \<Longrightarrow> oneLine (p', r', c') \<Longrightarrow> oneLine (p', r', (i, take n r) # c')"
  by (auto simp: oneLine_simp dest: in_set_takeD)

lemma rmatch_inv:
  "oneLine st \<Longrightarrow> (\<And>st'. oneLine st' \<Longrightarrow> k st' = Some res \<Longrightarrow> Q) \<Longrightarrow>
   rmatch x st k = Some res \<Longrightarrow> Q"
proof (induction x arbitrary: st k res Q)
  case (Lit t)
  obtain p r c where st: "st = (p, r, c)" by (cases st)
  from Lit.prems(3) have "k (p + length t, drop (length t) r, c) = Some res"
    by (simp add: st split: if_splits)
  moreover have "oneLine (p + length t, drop (length t) r, c)"
    using Lit.prems(1) unfolding st by (rule oneLine_drop)
  ultimately show ?case using Lit.prems(2) by blast
next
  case (Greedy cls m)
  obtain p r c where st: "st = (p, r, c)" by (cases st)
  show ?case
    using Greedy.prems unfolding st by (auto elim: greedy_inv [rotated -1])
next
  case (Lazy cls m)
  obtain p r c where st: "st = (p, r, c)" by (cases st)
  show ?case
    using Lazy.prems unfolding st by (auto elim: lazy_inv [rotated -1])
next
  case (Cap i x)
  obtain p r c where st: "st = (p, r, c)" by (cases st)
  let ?k = "\<lambda>st'. k (fst st', fst (snd st'), (i, take (fst st' - fst st) (fst (snd st))) # snd (snd st'))"
  from Cap.prems(3) have m: "rmatch x st ?k = Some res" by simp
  show ?case
  proof (rule Cap.IH [OF Cap.prems(1) _ m])
    fix st' assume a: "oneLine st'" "?k st' = Some res"
    obtain p' r' c' where st': "st' = (p', r', c')" by (cases st')
    have "oneLine (p', r', (i, take (p' - p) r) # c')"
      using Cap.prems(1) a(1) unfolding st st' by (rule oneLine_capture)
    with a(2) Cap.prems(2) show Q unfolding st st' by auto
  qed
next
  case (Seq x y)
  from Seq.prems(3) have m: "rmatch x st (\<lambda>st'. rmatch y st' k) = Some res" by simp
  show ?case
  proof (rule Seq.IH(1) [OF Seq.prems(1) _ m])
    fix st' assume "oneLine st'" "rmatch y st' k = Some res"
    then show Q using Seq.IH(2) Seq.prems(2) by blast
  qed
next
  case (Alt x y)
  from Alt.prems(3) have "rmatch x st k = Some res \<or> rmatch y st k = Some res"
    by (auto split: option.splits)
  then show ?case using Alt.IH Alt.prems(1,2) by blast
next
  case (Opt x)
  from Opt.prems(3) have "rmatch x st k = Some res \<or> k st = Some res"
    by (auto split: option.splits)
  then show ?case using Opt.IH Opt.prems(1,2) by blast
next
  case Bol
  then show ?case by (auto split: if_splits)
next
  case Eol
  then show ?case by (auto split: if_splits)
next
  case (Ahead x)
  from Ahead.prems(3) obtain st' where a: "rmatch x st Some = Some st'"
    and k: "k (fst st, fst (snd st), snd (snd st')) = Some res"
    by (auto split: option.splits)
  have "oneLine st'"
    by (rule Ahead.IH [OF Ahead.prems(1) _ a]) simp
  then have "oneLine (fst st, fst (snd st), snd (snd st'))"
    using Ahead.prems(1) by (cases st; cases st') (simp add: oneLine_simp)
  with k Ahead.prems(2) show ?case by blast
qed

lemma execFrom_oneLine:
  "CHR 0x0A \<notin> set r \<Longrightarrow> execFrom x p r = Some m \<Longrightarrow>
   \<forall>c\<in>set (snd (snd m)). CHR 0x0A \<notin> set (snd c)"
proof (induction r arbitrary: p)
  case Nil
  then obtain st where a: "rmatch x (p, [], []) Some = Some st" and m: "m = (p, fst st, snd (snd st))"
    by (auto split: option.splits)
  have "oneLine st"
    by (rule rmatch_inv [OF _ _ a]) (simp_all add: oneLine_simp)
  then show ?case unfolding m by (cases st) (simp add: oneLine_simp)
next
  case (Cons ch r)
  show ?case
  proof (cases "rmatch x (p, ch # r, []) Some")
    case None
    with Cons show ?thesis by simp
  next
    case (Some st)
    with Cons.prems have m: "m = (p, fst st, snd (snd st))" by simp
    have "oneLine st"
      by (rule rmatch_inv [OF _ _ Some]) (use Cons.prems(1) in \<open>simp_all add: oneLine_simp\<close>)
    then show ?thesis unfolding m by (cases st) (simp add: oneLine_simp)
  qed
qed

lemma group_no_newline:
  assumes "CHR 0x0A \<notin> set s" "exec x s = Some m" "group m i = Str t"
  shows "CHR 0x0A \<notin> set t"
proof -
  from assms(3) have "map_of (snd (snd m)) i = Some t"
    by (simp add: group_def split: option.splits)
  then have "(i, t) \<in> set (snd (snd m))"
    by (rule map_of_SomeD)
  with execFrom_oneLine [OF assms(1) assms(2) [unfolded exec_def]] show ?thesis
    by fastforce
qed


lemma greedy_split:
  "greedy cls m p r c k = Some res \<Longrightarrow>
   \<exists>j\<le>length r. (\<forall>ch\<in>set (take j r). cls ch) \<and> k (p + j, drop j r, c) = Some res"
proof (induction r arbitrary: m p)
  case Nil
  then show ?case by (auto split: if_splits)
next
  case (Cons x xs)
  show ?case
  proof (cases "cls x \<and> greedy cls (m - 1) (Suc p) xs c k = Some res")
    case True
    with Cons.IH obtain j where "j \<le> length xs" "\<forall>ch\<in>set (take j xs). cls ch"
      "k (Suc p + j, drop j xs, c) = Some res"
      by blast
    with True show ?thesis
      by (intro exI [of _ "Suc j"]) simp
  next
    case False
    with Cons.prems have "k (p, x # xs, c) = Some res"
      by (auto split: if_splits option.splits)
    then show ?thesis
      by (intro exI [of _ 0]) simp
  qed
qed

lemma lineNum_digits:
  assumes "exec lineNumRegExp s = Some m"
  shows "\<exists>ds. group m 1 = Str ds \<and> (\<forall>ch\<in>set ds. isDigit ch)"
proof -
  have step: "\<exists>ds. snd (snd st) = [(1, ds)] \<and> (\<forall>ch\<in>set ds. isDigit ch)"
    if "rmatch lineNumRegExp (p, r, []) Some = Some st" for p r st
  proof -
    let ?k = "\<lambda>st'. Some (fst st', fst (snd st'),
        (1, take (fst st' - (p + 1)) (drop 1 r)) # snd (snd st'))"
    from that have "greedy isDigit 1 (p + 1) (drop 1 r) [] ?k = Some st"
      by (simp add: lineNumRegExp_def split: if_splits)
    from greedy_split [OF this] obtain j
      where "\<forall>ch\<in>set (take j (drop 1 r)). isDigit ch"
        and "?k (p + 1 + j, drop j (drop 1 r), []) = Some st"
      by blast
    then show ?thesis by auto
  qed
  have "\<exists>ds. snd (snd m) = [(1, ds)] \<and> (\<forall>ch\<in>set ds. isDigit ch)"
    if "execFrom lineNumRegExp p r = Some m" for p r
    using that
  proof (induction r arbitrary: p)
    case Nil
    then show ?case using step by (fastforce split: option.splits)
  next
    case (Cons ch r)
    then show ?case using step by (fastforce split: option.splits)
  qed
  with assms show ?thesis
    by (fastforce simp: exec_def group_def)
qed

lemma digitVal_nonneg: "isDigit ch \<Longrightarrow> 0 \<le> digitVal ch"
  by (auto simp: isDigit_def digitVal_def)

lemma toNumber_nonneg: "\<forall>ch\<in>set ds. isDigit ch \<Longrightarrow> 0 \<le> toNumber ds"
proof -
  have "0 \<le> foldl (\<lambda>a c. 10 * a + digitVal c) a ds"
    if "\<forall>ch\<in>set ds. isDigit ch" "0 \<le> a" for a
    using that by (induction ds arbitrary: a) (simp_all add: digitVal_nonneg)
  then show "\<forall>ch\<in>set ds. isDigit ch \<Longrightarrow> 0 \<le> toNumber ds"
    by (simp add: toNumber_def)
qed

lemma lineNum_nonneg:
  "exec lineNumRegExp s = Some m \<Longrightarrow> 0 \<le> toNumber (toString (group m 1))"
  using lineNum_digits toNumber_nonneg by fastforce

lemma digit_char: "0 \<le> d \<Longrightarrow> d < 10 \<Longrightarrow> isDigit (char_of (48 + d :: int))"
proof -
  assume "0 \<le> d" "d < 10"
  then have "d = 0 \<or> d = 1 \<or> d = 2 \<or> d = 3 \<or> d = 4 \<or> d = 5 \<or> d = 6 \<or> d = 7
      \<or> d = 8 \<or> d = 9"
    by arith
  then show ?thesis
    by (elim disjE; hypsubst; code_simp)
qed

lemma showNum_head: "0 \<le> n \<Longrightarrow> \<exists>d r. showNum n = d # r \<and> isDigit d"
proof (induction n rule: showNum.induct)
  case (1 n)
  show ?case
  proof (cases "n < 10")
    case True
    with 1 show ?thesis by (subst showNum.simps) (simp add: digit_char)
  next
    case False
    with 1 obtain d r where "showNum (n div 10) = d # r" "isDigit d" by fastforce
    with False show ?thesis by (subst showNum.simps) simp
  qed
qed

lemma greedy_any: "(\<And>st. k st \<noteq> None) \<Longrightarrow> greedy cls 0 p r c k \<noteq> None"
  by (induction r arbitrary: p) (auto split: option.splits)

lemma greedy_total:
  assumes "cls d" "\<And>st. k st \<noteq> None"
  shows "greedy cls 1 p (d # r) c k \<noteq> None"
  using assms(1) greedy_any [of k cls "Suc p" r c, OF assms(2)]
  by (auto split: option.splits)

lemma lineNum_matches:
  assumes "isDigit d"
  shows "exec lineNumRegExp (a @ CHR '':'' # d # r) \<noteq> None"
proof -
  have here: "rmatch lineNumRegExp (p, CHR '':'' # d # r, []) Some \<noteq> None" for p
  proof -
    let ?k = "\<lambda>st'. Some (fst st', fst (snd st'),
        (1::nat, take (fst st' - (p + 1)) (d # r)) # snd (snd st'))"
    have "greedy isDigit 1 (p + 1) (d # r) [] ?k \<noteq> None"
      by (rule greedy_total) (simp_all add: assms)
    then show ?thesis
      by (simp add: lineNumRegExp_def js_startsWith_def)
  qed
  have "execFrom lineNumRegExp p (a @ CHR '':'' # d # r) \<noteq> None" for p
  proof (induction a arbitrary: p)
    case Nil
    then show ?case using here [of p] by (auto split: option.splits)
  next
    case (Cons ch a)
    then show ?case by (auto split: option.splits)
  qed
  then show ?thesis by (simp add: exec_def)
qed


lemma toString_no_newline:
  "(\<And>t. v = Str t \<Longrightarrow> CHR 0x0A \<notin> set t) \<Longrightarrow> CHR 0x0A \<notin> set (toString v)"
  by (cases v) auto

lemma fillStackLines_block:
  assumes fill: "fillStackLines (map Str ls) sourceCode compiledCode = Inr xs"
    and changed: "xs \<noteq> map Str ls"
    and nl: "\<And>l. l \<in> set ls \<Longrightarrow> CHR 0x0A \<notin> set l"
  shows "\<exists>h cl ind. xs = Str h # cl # Str ind # Str [] # map Str ls \<and>
           CHR 0x0A \<notin> set h \<and> CHR 0x0A \<notin> set ind \<and> exec lineNumRegExp h \<noteq> None \<and>
           (cl = Undefined \<or> (\<exists>l. cl = Str l \<and> CHR 0x0A \<notin> set l))"
proof -
  let ?frame = "toString (at (map Str ls) 1)"
  have fnl: "CHR 0x0A \<notin> set ?frame"
    by (rule toString_no_newline) (use nl at_map_Str in blast)
  from fill changed obtain locMatch where loc: "exec lineNumRegExp ?frame = Some locMatch"
    by (cases "exec lineNumRegExp ?frame") (auto simp: fillStackLines_def)
  from fill loc obtain columnMatch where col: "exec columnNumRegExp ?frame = Some columnMatch"
    by (cases "exec columnNumRegExp ?frame") (auto simp: fillStackLines_def)
  from fill loc col obtain pathMatch where path: "exec filePathRegExp ?frame = Some pathMatch"
    by (cases "exec filePathRegExp ?frame") (auto simp: fillStackLines_def)
  let ?column = "toNumber (toString (group columnMatch 1))"
  let ?path = "toString (group pathMatch 1)"
  let ?lineNum = "toNumber (toString (group locMatch 1))"
  let ?cl = "at (map Str (js_split compiledCode)) (?lineNum - 1)"
  from fill loc col path obtain spaces where sp: "js_repeat ?column = Inr spaces"
    and xs: "xs = Str (?path @ '':'' @ showNum ?lineNum) # ?cl # Str (spaces @ ''^'') # Str []
               # map Str ls"
    by (cases "js_repeat ?column") (auto simp: fillStackLines_def Let_def)
  have n0: "0 \<le> ?lineNum"
    using loc by (rule lineNum_nonneg)
  have pnl: "CHR 0x0A \<notin> set ?path"
    by (rule toString_no_newline) (use fnl path group_no_newline in blast)
  have hnl: "CHR 0x0A \<notin> set (?path @ '':'' @ showNum ?lineNum)"
    using pnl showNum_no_newline [OF n0] by simp
  obtain d r where "showNum ?lineNum = d # r" "isDigit d"
    using showNum_head [OF n0] by blast
  then have hm: "exec lineNumRegExp (?path @ '':'' @ showNum ?lineNum) \<noteq> None"
    using lineNum_matches [of d ?path r] by simp
  have "spaces = replicate (nat ?column) CHR '' ''"
    using sp by (simp add: js_repeat_def split: if_splits)
  then have inl: "CHR 0x0A \<notin> set (spaces @ ''^'')"
    by simp
  have cl: "?cl = Undefined \<or> (\<exists>l. ?cl = Str l \<and> CHR 0x0A \<notin> set l)"
    using at_map_Str_cases [of "js_split compiledCode" "?lineNum - 1"]
      at_map_Str js_split_no_newline by blast
  from xs hnl inl hm cl show ?thesis by blast
qed

lemma maskStackLines_length_le:
  "maskStackLines xs s = Some (Inr ys) \<Longrightarrow> length ys \<le> length xs"
  by (auto simp: maskStackLines_def shiftRepl_def Let_def
      split: option.splits jsval.splits if_splits)

lemma maskStackLines_no_code:
  "exec lineNumRegExp h = Some m \<Longrightarrow>
   maskStackLines (Str h # Undefined # Str ind # rest) s = Some (Inl TypeError)"
  by (simp add: maskStackLines_def at_Cons_0 at_Cons_1 at_Cons_2 Let_def)

lemma second_pass:
  assumes ys: "maskStackLines (map Str ls) sourceCode = Some (Inr ys)"
    and loc: "exec lineNumRegExp (hd ls) = Some locMatch"
    and ne: "ls \<noteq> []"
    and nl: "\<And>l. l \<in> set ls \<Longrightarrow> CHR 0x0A \<notin> set l"
    and masked: "masked = js_join ys"
    and scrubbed: "scrubStack filename masked = masked"
    and len: "length (js_split masked) = length ls"
  shows "maskStack filename masked sourceCode compiledText = Some (Inr masked)"
proof -
  from maskStackLines_again [OF ys loc ne nl]
  obtain ms where ms: "ys = map Str ms" "ms \<noteq> []" "\<forall>l\<in>set ms. CHR 0x0A \<notin> set l"
    and stable: "length ms = length ls \<Longrightarrow>
              hd ms = hd ls \<and> maskStackLines ys sourceCode = Some (Inr ys)"
    by blast
  have split: "js_split masked = ms"
    unfolding masked ms(1) using ms(2,3) by (intro js_split_join) auto
  with len stable have h: "hd ms = hd ls"
    and again: "maskStackLines ys sourceCode = Some (Inr ys)"
    by simp_all
  have "exec lineNumRegExp (hd (js_split (scrubStack filename masked))) = Some locMatch"
    using loc h by (simp add: scrubbed split)
  note again_m = maskStack_located [OF this, of sourceCode compiledText]
  have "map Str (js_split (scrubStack filename masked)) = ys"
    by (simp add: scrubbed split ms(1))
  with again_m again have "maskStack filename masked sourceCode compiledText
      = Some (Inr (js_join ys))"
    by simp
  then show ?thesis
    by (simp only: masked [symmetric])
qed

section \<open>Column recovery\<close>

text \<open>
  C1, as amended. The column search of \<open>maskStackLines\<close> tries the clips of length 5
  down to 1 (not 6 down to 2) that the generated line has at the reported column,
  largest first; the first clip that occurs in the original line at or before the
  reported column (not one past it) decides, and the recovered column is the leftmost of
  its occurrences there (the scan goes on leftward through every occurrence, it does not
  stop at the last one); when no clip occurs there the result is \<open>-1\<close>. This is what
  \<open>recoverLeftmost\<close> computes; the search returns it whenever it is not column 0.
\<close>

theorem recoverColumn_leftmost_clip:
  "recoverLeftmost g s column \<noteq> 0 \<Longrightarrow>
   recoverColumn g s column = Some (recoverLeftmost g s column)"
  by (simp add: recoverColumn_leftmost)

theorem recoverColumn_leftmost_clip_witness:
  "recoverLeftmost ''....ab'' ''xab ab'' 4 \<noteq> 0 \<and>
   recoverColumn ''....ab'' ''xab ab'' 4 = Some 1"
proof -
  have v: "recoverLeftmost ''....ab'' ''xab ab'' 4 = 1"
    by code_simp
  then have h: "recoverLeftmost ''....ab'' ''xab ab'' 4 \<noteq> 0"
    by simp
  from recoverColumn_leftmost_clip [OF h] v h show ?thesis
    by simp
qed

text \<open>
  C1 as stated fails. With generated line \<open>....ab\<close>, original line \<open>xab ab\<close> and
  column 4 the source recovers column 1, the leftmost occurrence of \<open>ab\<close>, where the
  search of the specification gives 4. With \<open>.ab\<close>, \<open>xa\<close> and column 1 the source
  recovers column 1 from the clip of length 1, where no clip of length 6 to 2 occurs.
\<close>

theorem recoverColumn_spec_counterexample:
  "recoverColumn ''....ab'' ''xab ab'' 4 = Some 1 \<and>
   recoverColumn_spec ''....ab'' ''xab ab'' 4 = 4 \<and>
   recoverColumn ''.ab'' ''xa'' 1 = Some 1 \<and>
   recoverColumn_spec ''.ab'' ''xa'' 1 = -1"
  by code_simp

text \<open>
  C2 as stated fails: at reported column 14 of \<open>const x = foo(bar);\<close> the search does
  not recover column 8, and \<open>maskStackLines\<close> does not write an indicator line of 8
  spaces and a caret.
\<close>

theorem foo_bar_counterexample:
  "recoverColumn ''const x = foo(bar);'' ''let x = foo(bar)'' 14 \<noteq> Some 8 \<and>
   maskStackLines
     [Str ''/x/y.js:1'', Str ''const x = foo(bar);'', Str (replicate 14 CHR '' '' @ ''^''),
      Str [], Str ''TypeError: bar is not defined'',
      Str ''    at Object.<anonymous> (/x/y.js:1:15)'']
     ''let x = foo(bar)''
   \<noteq> Some (Inr
     [Str ''/x/y.js:1'', Str ''let x = foo(bar)'', Str (replicate 8 CHR '' '' @ ''^''),
      Str [], Str ''TypeError: bar is not defined'',
      Str ''    at Object.<anonymous> (/x/y.js:1:8)''])"
  by code_simp

text \<open>
  C2, as amended. Column 14 of \<open>const x = foo(bar);\<close> points at \<open>bar\<close>. The clip
  \<open>bar)\<close> occurs in \<open>let x = foo(bar)\<close> at column 12, which is less than 14, and
  \<open>maskStack\<close> rewrites the indicator line to 12 spaces and the caret, and the column
  of the first frame line to 12.
\<close>

theorem foo_bar_column_12:
  "js_indexOf (replicate 14 CHR '' '' @ ''^'') CHR ''^'' = 14 \<and>
   recoverColumn ''const x = foo(bar);'' ''let x = foo(bar)'' 14 = Some 12 \<and>
   maskStack ''/node_modules/@std/esm/esm.js''
     (js_join [Str ''/x/y.js:1'',
               Str ''const x = foo(bar);'',
               Str (replicate 14 CHR '' '' @ ''^''),
               Str [],
               Str ''TypeError: bar is not defined'',
               Str ''    at Object.<anonymous> (/x/y.js:1:15)''])
     ''let x = foo(bar)'' (Some ''const x = foo(bar);'')
   = Some (Inr (js_join [Str ''/x/y.js:1'',
               Str ''let x = foo(bar)'',
               Str (replicate 12 CHR '' '' @ ''^''),
               Str [],
               Str ''TypeError: bar is not defined'',
               Str ''    at Object.<anonymous> (/x/y.js:1:12)'']))"
  by code_simp

section \<open>Raises and loops of the runtime masker\<close>

text \<open>
  C3 at a failing input. The message of the error holds \<open>:3000\<close>, so the header line
  matches \<open>lineNumRegExp\<close> and \<open>maskStackLines\<close> goes on to remap; the source text
  has no line 3000, and \<open>sourceLineOfCode.lastIndexOf\<close> is called on \<open>undefined\<close>.
\<close>

theorem maskStack_raises:
  "maskStack ''/node_modules/@std/esm/esm.js''
     (js_join [Str ''Error: connect ECONNREFUSED 127.0.0.1:3000'',
               Str ''    at connect (/x/y.js:1:15)'',
               Str ''    at main (/x/y.js:7:3)''])
     ''let x = foo(bar)'' (Some ''const x = foo(bar);'')
   = Some (Inl TypeError)"
  by code_simp

text \<open>
  A second line that matches \<open>lineNumRegExp\<close> and not \<open>columnNumRegExp\<close>, here the
  second line of a message, makes \<open>fillStackLines\<close> index \<open>null\<close>; a clip that
  occurs at column 0 of the original line makes the inner loop of the column search run
  forever.
\<close>

lemma maskStack_raises_frame:
  "maskStack ''/node_modules/@std/esm/esm.js''
     (js_join [Str ''AssertionError: expected 3 items'',
               Str ''  but got 10:30 as ratio'',
               Str ''    at check (/x/y.js:1:15)''])
     ''let x = foo(bar)'' (Some ''const x = foo(bar);'')
   = Some (Inl TypeError)"
  by code_simp

lemma maskStack_diverges:
  "maskStack ''/node_modules/@std/esm/esm.js''
     (js_join [Str ''/x/y.js:1'',
               Str ''const x = foo(bar);'',
               Str ''^'',
               Str [],
               Str ''TypeError: bar is not defined'',
               Str ''    at Object.<anonymous> (/x/y.js:1:1)''])
     ''const x = foo(bar)'' None
   = None"
proof -
  have "recoverLeftmost ''const x = foo(bar);'' ''const x = foo(bar)'' 0 = 0"
    by code_simp
  then have r: "recoverColumn ''const x = foo(bar);'' ''const x = foo(bar)'' 0 = None"
    by (simp add: recoverColumn_leftmost)
  have l: "exec lineNumRegExp ''/x/y.js:1'' = Some (7, 9, [(1, ''1'')])"
    by code_simp
  have s: "scrubStack ''/node_modules/@std/esm/esm.js''
     (js_join [Str ''/x/y.js:1'',
               Str ''const x = foo(bar);'',
               Str ''^'',
               Str [],
               Str ''TypeError: bar is not defined'',
               Str ''    at Object.<anonymous> (/x/y.js:1:1)'']) = (js_join [Str ''/x/y.js:1'',
               Str ''const x = foo(bar);'',
               Str ''^'',
               Str [],
               Str ''TypeError: bar is not defined'',
               Str ''    at Object.<anonymous> (/x/y.js:1:1)''])"
    by code_simp
  have sp: "js_split (js_join [Str ''/x/y.js:1'',
               Str ''const x = foo(bar);'',
               Str ''^'',
               Str [],
               Str ''TypeError: bar is not defined'',
               Str ''    at Object.<anonymous> (/x/y.js:1:1)'']) = [''/x/y.js:1'',
               ''const x = foo(bar);'',
               ''^'',
               [],
               ''TypeError: bar is not defined'',
               ''    at Object.<anonymous> (/x/y.js:1:1)'']"
    by code_simp
  have n: "toNumber ''1'' = 1" by code_simp
  have sl: "js_split ''const x = foo(bar)'' = [''const x = foo(bar)'']" by code_simp
  show ?thesis
    unfolding maskStack_def s sp
    by (simp add: maskStackLines_def at_def l group_def n sl r)
qed

section \<open>The runtime masker without a compiled text\<close>

text \<open>
  C5 as stated fails. The host has decorated the text of a runtime error with a header
  \<open>path:line\<close>, the code line and an indicator; no compiled text is passed. The header
  matches \<open>lineNumRegExp\<close>, so \<open>maskStackLines\<close> remaps: the result is not the
  scrubbed input.
\<close>

theorem maskStack_absent_compiled_counterexample:
  "maskStack ''/node_modules/@std/esm/esm.js''
     (js_join [Str ''/x/y.js:1'',
               Str ''var y = f(1);'',
               Str (replicate 8 CHR '' '' @ ''^''),
               Str [],
               Str ''ReferenceError: f is not defined'',
               Str ''    at Object.<anonymous> (/x/y.js:1:9)''])
     ''y = f(1)'' None
   \<noteq> Some (Inr (scrubStack ''/node_modules/@std/esm/esm.js''
     (js_join [Str ''/x/y.js:1'',
               Str ''var y = f(1);'',
               Str (replicate 8 CHR '' '' @ ''^''),
               Str [],
               Str ''ReferenceError: f is not defined'',
               Str ''    at Object.<anonymous> (/x/y.js:1:9)''])))"
  by code_simp

text \<open>
  C5, as amended. Without a compiled text \<open>maskStack\<close> never calls
  \<open>fillStackLines\<close>: its result is that of \<open>maskStackLines\<close> on the lines of the
  scrubbed text. When the first of these lines has no \<open>:\<close> followed by a digit,
  \<open>maskStack\<close> returns, and returns the scrubbed text.
\<close>

theorem maskStack_absent_compiled:
  "maskStack filename raw sourceCode None =
     (case maskStackLines (map Str (js_split (scrubStack filename raw))) sourceCode of
        None \<Rightarrow> None
      | Some (Inl e) \<Rightarrow> Some (Inl e)
      | Some (Inr stackLines) \<Rightarrow> Some (Inr (js_join stackLines))) \<and>
   (exec lineNumRegExp (hd (js_split (scrubStack filename raw))) = None \<longrightarrow>
    maskStack filename raw sourceCode None = Some (Inr (scrubStack filename raw)))"
  using maskStack_no_synthesis maskStack_no_location by blast

theorem maskStack_absent_compiled_witness:
  "exec lineNumRegExp (hd (js_split (scrubStack ''/node_modules/@std/esm/esm.js''
      (js_join [Str ''ReferenceError: f is not defined'',
                Str ''    at load (/node_modules/@std/esm/esm.js:1:100)'',
                Str ''    at Object.<anonymous> (/x/y.js:1:9)''])))) = None \<and>
   maskStack ''/node_modules/@std/esm/esm.js''
      (js_join [Str ''ReferenceError: f is not defined'',
                Str ''    at load (/node_modules/@std/esm/esm.js:1:100)'',
                Str ''    at Object.<anonymous> (/x/y.js:1:9)''])
      ''y = f(1)'' None
   = Some (Inr (js_join [Str ''ReferenceError: f is not defined'',
                Str ''    at Object.<anonymous> (/x/y.js:1:9)'']))"
proof -
  have s: "scrubStack ''/node_modules/@std/esm/esm.js''
      (js_join [Str ''ReferenceError: f is not defined'',
                Str ''    at load (/node_modules/@std/esm/esm.js:1:100)'',
                Str ''    at Object.<anonymous> (/x/y.js:1:9)''])
      = js_join [Str ''ReferenceError: f is not defined'',
                Str ''    at Object.<anonymous> (/x/y.js:1:9)'']"
    by code_simp
  have h: "exec lineNumRegExp (hd (js_split (scrubStack ''/node_modules/@std/esm/esm.js''
      (js_join [Str ''ReferenceError: f is not defined'',
                Str ''    at load (/node_modules/@std/esm/esm.js:1:100)'',
                Str ''    at Object.<anonymous> (/x/y.js:1:9)''])))) = None"
    by code_simp
  note t = maskStack_absent_compiled
    [of "''/node_modules/@std/esm/esm.js''"
        "js_join [Str ''ReferenceError: f is not defined'',
                Str ''    at load (/node_modules/@std/esm/esm.js:1:100)'',
                Str ''    at Object.<anonymous> (/x/y.js:1:9)'']" "''y = f(1)''",
     THEN conjunct2, THEN mp, OF h]
  from h t [unfolded s] show ?thesis
    by (intro conjI)
qed

section \<open>Masking a masked text again\<close>

text \<open>
  C4 as stated fails. \<open>maskParserStack\<close> splices a new block in front of its own
  output: the header line it wrote, \<open>/x/y.js:1\<close>, does not match
  \<open>errorMessageRegExp\<close>, and the second pass replaces it by an empty line, a caret, and
  two empty lines. \<open>maskStack\<close> deleted the indicator line of the second text in its
  first pass; its second pass takes the empty line for the indicator line and deletes
  that too.
\<close>

theorem masking_twice_counterexample:
  "maskParserStack ''/node_modules/@std/esm/esm.js''
     ''SyntaxError: Unexpected token (1:4) while processing file: /x/y.js'' ''y = ) 1''
   = Inr (js_join [Str ''/x/y.js:1'', Str ''y = ) 1'', Str ''    ^'', Str [],
                   Str ''SyntaxError: Unexpected token'']) \<and>
   maskParserStack ''/node_modules/@std/esm/esm.js''
     (js_join [Str ''/x/y.js:1'', Str ''y = ) 1'', Str ''    ^'', Str [],
               Str ''SyntaxError: Unexpected token'']) ''y = ) 1''
   = Inr (js_join [Str [], Str ''^'', Str [], Str [], Str ''y = ) 1'', Str ''    ^'', Str [],
                   Str ''SyntaxError: Unexpected token'']) \<and>
   maskStack ''/node_modules/@std/esm/esm.js''
     (js_join [Str ''/x/y.js:1'', Str ''aaaaaa'', Str ''^'', Str [], Str ''Error: m'',
               Str ''    at f (/x/y.js:1:1)'']) ''bbbbbc'' None
   = Some (Inr (js_join [Str ''/x/y.js:1'', Str ''bbbbbc'', Str [], Str ''Error: m'',
                         Str ''    at f (/x/y.js:1:1)''])) \<and>
   maskStack ''/node_modules/@std/esm/esm.js''
     (js_join [Str ''/x/y.js:1'', Str ''bbbbbc'', Str [], Str ''Error: m'',
               Str ''    at f (/x/y.js:1:1)'']) ''bbbbbc'' None
   = Some (Inr (js_join [Str ''/x/y.js:1'', Str ''bbbbbc'', Str ''Error: m'',
                         Str ''    at f (/x/y.js:1:1)'']))"
  by code_simp

text \<open>
  C4, as amended. \<open>maskStack\<close> returns a text unchanged when that text is the result
  of a first pass of \<open>maskStack\<close> with the same source and compiled texts, when no line
  of it names the loader's own file, and when the first pass either kept the number of
  lines of the scrubbed input or made it four lines longer. The second case is the first
  pass in which \<open>fillStackLines\<close> put a header block in front of a text that had none:
  the second pass puts no second block in front and moves no indicator. Left out are the
  first passes that deleted the indicator line or dropped a \<open>repl:\<close> header, as in the
  text above. The parser masker has no such property; the proxy masks once.
\<close>

theorem maskStack_twice:
  assumes run: "maskStack filename raw sourceCode compiledText = Some (Inr masked)"
    and scrubbed: "scrubStack filename masked = masked"
    and lines: "length (js_split masked) = length (js_split (scrubStack filename raw)) \<or>
                length (js_split masked) = length (js_split (scrubStack filename raw)) + 4"
  shows "maskStack filename masked sourceCode compiledText = Some (Inr masked)"
proof -
  let ?ls = "js_split (scrubStack filename raw)"
  have nl: "\<And>l. l \<in> set ?ls \<Longrightarrow> CHR 0x0A \<notin> set l"
    by (rule js_split_no_newline)
  show ?thesis
  proof (cases "exec lineNumRegExp (hd ?ls)")
    case None
    let ?filled = "case compiledText of None \<Rightarrow> Inr (map Str ?ls)
      | Some c \<Rightarrow> fillStackLines (map Str ?ls) sourceCode c"
    have m: "maskStack filename raw sourceCode compiledText =
       (case ?filled of
          Inl e \<Rightarrow> Some (Inl e)
        | Inr xs \<Rightarrow>
            (case maskStackLines xs sourceCode of
               None \<Rightarrow> None
             | Some (Inl e) \<Rightarrow> Some (Inl e)
             | Some (Inr stackLines) \<Rightarrow> Some (Inr (js_join stackLines))))"
      using None by (cases compiledText) (simp_all add: maskStack_def at_Str_split_0)
    from run m obtain xs where xs: "?filled = Inr xs"
      by (cases ?filled) auto
    with run m obtain ys where ys: "maskStackLines xs sourceCode = Some (Inr ys)"
      and masked: "masked = js_join ys"
      by (auto elim: maskStack_Inr)
    show ?thesis
    proof (cases "xs = map Str ?ls")
      case True
      with ys None have "ys = map Str ?ls"
        by (simp add: maskStackLines_no_location at_Str_split_0)
      with masked have "masked = scrubStack filename raw"
        by (simp add: js_join_split)
      with run show ?thesis
        by (simp add: maskStack_scrubbed)
    next
      case False
      with xs obtain c where c: "fillStackLines (map Str ?ls) sourceCode c = Inr xs"
        by (cases compiledText) auto
      from fillStackLines_block [OF c False nl]
      obtain h cl ind where block: "xs = Str h # cl # Str ind # Str [] # map Str ?ls"
        and hnl: "CHR 0x0A \<notin> set h" and inl: "CHR 0x0A \<notin> set ind"
        and hm: "exec lineNumRegExp h \<noteq> None"
        and cl: "cl = Undefined \<or> (\<exists>l. cl = Str l \<and> CHR 0x0A \<notin> set l)"
        by blast
      from hm obtain locMatch where loc: "exec lineNumRegExp h = Some locMatch"
        by auto
      have "cl \<noteq> Undefined"
        using ys maskStackLines_no_code [OF loc] unfolding block by auto
      with cl obtain l where l: "cl = Str l" "CHR 0x0A \<notin> set l"
        by auto
      let ?ls' = "h # l # ind # [] # ?ls"
      have xs': "xs = map Str ?ls'"
        by (simp add: block l(1))
      have "length ys \<le> length (js_split masked)"
        unfolding masked by (rule js_split_join_length)
      moreover have "length xs \<le> length ys + 2"
        using ys by (rule maskStackLines_length)
      ultimately have "length (js_split masked) \<noteq> length ?ls"
        by (simp add: block)
      with lines have len: "length (js_split masked) = length ?ls'"
        by simp
      show ?thesis
      proof (rule second_pass [OF ys [unfolded xs'] _ _ _ masked scrubbed len])
        show "exec lineNumRegExp (hd ?ls') = Some locMatch"
          using loc by simp
        show "?ls' \<noteq> []"
          by simp
        show "CHR 0x0A \<notin> set x" if "x \<in> set ?ls'" for x
          using that hnl inl l(2) nl by auto
      qed
    qed
  next
    case (Some locMatch)
    note m = maskStack_located [OF Some, of sourceCode compiledText]
    from run m obtain ys where ys: "maskStackLines (map Str ?ls) sourceCode = Some (Inr ys)"
      and masked: "masked = js_join ys"
      by (auto elim: maskStack_Inr)
    from maskStackLines_again [OF ys Some js_split_not_Nil nl]
    obtain ms where ms: "ys = map Str ms" "ms \<noteq> []" "\<forall>l\<in>set ms. CHR 0x0A \<notin> set l"
      by blast
    have "js_split masked = ms"
      unfolding masked ms(1) using ms(2,3) by (intro js_split_join) auto
    moreover have "length ys \<le> length (map Str ?ls)"
      using ys by (rule maskStackLines_length_le)
    ultimately have "length (js_split masked) \<le> length ?ls"
      by (simp add: ms(1))
    with lines have len: "length (js_split masked) = length ?ls"
      by simp
    show ?thesis
      by (rule second_pass [OF ys Some js_split_not_Nil nl masked scrubbed len])
  qed
qed

theorem maskStack_twice_witness:
  "maskStack ''/node_modules/@std/esm/esm.js''
     (js_join [Str ''/x/y.js:1'', Str ''y = f(1)'', Str (replicate 4 CHR '' '' @ ''^''), Str [],
               Str ''ReferenceError: f is not defined'',
               Str ''    at Object.<anonymous> (/x/y.js:1:4)''])
     ''y = f(1)'' (Some ''var y = f(1);'')
   = Some (Inr (js_join
              [Str ''/x/y.js:1'', Str ''y = f(1)'', Str (replicate 4 CHR '' '' @ ''^''), Str [],
               Str ''ReferenceError: f is not defined'',
               Str ''    at Object.<anonymous> (/x/y.js:1:4)''])) \<and>
   maskStack ''/node_modules/@std/esm/esm.js''
     (js_join [Str ''Object.<anonymous> (/x/y.js:1'', Str ''y = f(1)'',
               Str (replicate 5 CHR '' '' @ ''^''), Str [],
               Str ''ReferenceError: f is not defined'',
               Str ''    at Object.<anonymous> (/x/y.js:1:5)''])
     ''y = f(1)'' (Some ''var y = f(1);'')
   = Some (Inr (js_join
              [Str ''Object.<anonymous> (/x/y.js:1'', Str ''y = f(1)'',
               Str (replicate 5 CHR '' '' @ ''^''), Str [],
               Str ''ReferenceError: f is not defined'',
               Str ''    at Object.<anonymous> (/x/y.js:1:5)'']))"
proof -
  let ?raw = "js_join [Str ''/x/y.js:1'', Str ''var y = f(1);'',
               Str (replicate 8 CHR '' '' @ ''^''), Str [],
               Str ''ReferenceError: f is not defined'',
               Str ''    at load (/node_modules/@std/esm/esm.js:1:100)'',
               Str ''    at Object.<anonymous> (/x/y.js:1:9)'']"
  let ?masked = "js_join
              [Str ''/x/y.js:1'', Str ''y = f(1)'', Str (replicate 4 CHR '' '' @ ''^''), Str [],
               Str ''ReferenceError: f is not defined'',
               Str ''    at Object.<anonymous> (/x/y.js:1:4)'']"
  let ?bare = "js_join [Str ''ReferenceError: f is not defined'',
               Str ''    at load (/node_modules/@std/esm/esm.js:1:100)'',
               Str ''    at Object.<anonymous> (/x/y.js:1:9)'']"
  let ?filled = "js_join
              [Str ''Object.<anonymous> (/x/y.js:1'', Str ''y = f(1)'',
               Str (replicate 5 CHR '' '' @ ''^''), Str [],
               Str ''ReferenceError: f is not defined'',
               Str ''    at Object.<anonymous> (/x/y.js:1:5)'']"
  have a: "maskStack ''/node_modules/@std/esm/esm.js'' ?raw ''y = f(1)'' (Some ''var y = f(1);'')
           = Some (Inr ?masked)"
    by code_simp
  have b: "scrubStack ''/node_modules/@std/esm/esm.js'' ?masked = ?masked"
    by code_simp
  have c: "length (js_split ?masked)
             = length (js_split (scrubStack ''/node_modules/@std/esm/esm.js'' ?raw)) \<or>
           length (js_split ?masked)
             = length (js_split (scrubStack ''/node_modules/@std/esm/esm.js'' ?raw)) + 4"
    by code_simp
  have a': "maskStack ''/node_modules/@std/esm/esm.js'' ?bare ''y = f(1)'' (Some ''var y = f(1);'')
           = Some (Inr ?filled)"
    by code_simp
  have b': "scrubStack ''/node_modules/@std/esm/esm.js'' ?filled = ?filled"
    by code_simp
  have four: "length (js_split ?filled)
             = length (js_split (scrubStack ''/node_modules/@std/esm/esm.js'' ?bare)) + 4"
    by code_simp
  have c': "length (js_split ?filled)
             = length (js_split (scrubStack ''/node_modules/@std/esm/esm.js'' ?bare)) \<or>
           length (js_split ?filled)
             = length (js_split (scrubStack ''/node_modules/@std/esm/esm.js'' ?bare)) + 4"
    using four by (rule disjI2)
  from maskStack_twice [OF a b c] maskStack_twice [OF a' b' c'] show ?thesis
    by (rule conjI)
qed

section \<open>The parser masker\<close>

text \<open>
  C6. The text of a parse error starts with the header line
  \<open>SyntaxError: Unexpected token (3:10) while processing file: /x/y.js\<close> (which does not
  name the loader's own file), and the source text has five lines. Then
  \<open>maskParserStack\<close> returns the lines \<open>/x/y.js:3\<close>, the third line of the source
  text, ten spaces and a caret, an empty line and
  \<open>SyntaxError: Unexpected token\<close>, in this order, followed by the scrubbed frames.
\<close>

theorem maskParserStack_example:
  assumes "js_split raw =
      ''SyntaxError: Unexpected token (3:10) while processing file: /x/y.js'' # frames"
    and "\<not> js_includes
      ''SyntaxError: Unexpected token (3:10) while processing file: /x/y.js'' filename"
    and "js_split sourceCode = [l1, l2, l3, l4, l5]"
  shows "maskParserStack filename raw sourceCode =
     Inr (js_join (map Str
       ([''/x/y.js:3'', l3, replicate 10 CHR '' '' @ ''^'', [], ''SyntaxError: Unexpected token'']
        @ filter (\<lambda>line. \<not> js_includes line filename) frames)))"
proof -
  let ?header = "''SyntaxError: Unexpected token (3:10) while processing file: /x/y.js''"
  let ?kept = "filter (\<lambda>line. \<not> js_includes line filename) frames"
  have scrub: "scrubStack filename raw = js_join (map Str (?header # ?kept))"
    using assms(1,2) by (simp add: scrubStack_def)
  have "\<And>l. l \<in> set (?header # ?kept) \<Longrightarrow> CHR 0x0A \<notin> set l"
    using js_split_no_newline [of _ raw] assms(1) by auto
  then have lines: "js_split (scrubStack filename raw) = ?header # ?kept"
    unfolding scrub by (intro js_split_join) simp_all
  have parts: "exec errorMessageRegExp ?header =
      Some (0, 67, [(4, ''/x/y.js''), (3, ''10''), (2, ''3''),
                    (1, ''SyntaxError: Unexpected token'')])"
    by code_simp
  have num: "toNumber ''3'' = 3" "toNumber ''10'' = 10"
    by code_simp+
  have rep: "js_repeat 10 = Inr (replicate 10 CHR '' '')"
    by (simp add: js_repeat_def maxStringLength_def)
  show ?thesis
    unfolding maskParserStack_def lines
    by (simp add: at_Cons_0 parts group_def num rep assms(3) at_def Let_def)
qed

theorem maskParserStack_example_witness:
  "maskParserStack ''/node_modules/@std/esm/esm.js''
     (js_join [Str ''SyntaxError: Unexpected token (3:10) while processing file: /x/y.js'',
               Str ''    at parse (/node_modules/@std/esm/esm.js:1:200)'',
               Str ''    at Module._compile (module.js:573:30)''])
     (js_join [Str ''import { b } from ../b'', Str ''let b = 1'', Str ''let c = b +* 2'',
               Str ''export default c'', Str []])
   = Inr (js_join [Str ''/x/y.js:3'', Str ''let c = b +* 2'',
                   Str (replicate 10 CHR '' '' @ ''^''), Str [],
                   Str ''SyntaxError: Unexpected token'',
                   Str ''    at Module._compile (module.js:573:30)''])"
proof -
  have a: "js_split (js_join [Str ''SyntaxError: Unexpected token (3:10) while processing file: /x/y.js'',
               Str ''    at parse (/node_modules/@std/esm/esm.js:1:200)'',
               Str ''    at Module._compile (module.js:573:30)'']) =
      ''SyntaxError: Unexpected token (3:10) while processing file: /x/y.js'' #
      [''    at parse (/node_modules/@std/esm/esm.js:1:200)'',
       ''    at Module._compile (module.js:573:30)'']"
    by code_simp
  have b: "\<not> js_includes
      ''SyntaxError: Unexpected token (3:10) while processing file: /x/y.js''
      ''/node_modules/@std/esm/esm.js''"
    by code_simp
  have c: "js_split (js_join [Str ''import { b } from ../b'', Str ''let b = 1'', Str ''let c = b +* 2'',
               Str ''export default c'', Str []]) =
      [''import { b } from ../b'', ''let b = 1'', ''let c = b +* 2'', ''export default c'', []]"
    by code_simp
  have d: "filter (\<lambda>line. \<not> js_includes line ''/node_modules/@std/esm/esm.js'')
      [''    at parse (/node_modules/@std/esm/esm.js:1:200)'',
       ''    at Module._compile (module.js:573:30)''] =
      [''    at Module._compile (module.js:573:30)'']"
    by code_simp
  from maskParserStack_example [OF a b c] d show ?thesis by simp
qed

section \<open>What \<open>maskStackLines\<close> does with the recovered column\<close>

text \<open>
  C7 as stated fails. With generated line \<open>.ab\<close>, original line \<open>xa\<close> and the caret at
  column 1, no clip of length 6 down to 2 occurs in the original line, yet
  \<open>maskStackLines\<close> keeps the indicator line: the clip \<open>a\<close> of length 1 occurs at
  column 1. With \<open>aaaaaa\<close>, \<open>bbbbbb\<close> and the caret at column 6 the clip is empty and
  \<open>maskStackLines\<close> does not return.
\<close>

theorem indicator_kept_counterexample:
  "js_lastIndexOf ''xa'' (js_substr ''.ab'' 1 6) (1 + 1) = -1 \<and>
   js_lastIndexOf ''xa'' (js_substr ''.ab'' 1 5) (1 + 1) = -1 \<and>
   js_lastIndexOf ''xa'' (js_substr ''.ab'' 1 4) (1 + 1) = -1 \<and>
   js_lastIndexOf ''xa'' (js_substr ''.ab'' 1 3) (1 + 1) = -1 \<and>
   js_lastIndexOf ''xa'' (js_substr ''.ab'' 1 2) (1 + 1) = -1 \<and>
   js_indexOf '' ^'' CHR ''^'' = 1 \<and>
   maskStackLines
     [Str ''/x/y.js:1'', Str ''.ab'', Str '' ^'', Str [], Str ''Error: m'',
      Str ''    at f (/x/y.js:1:2)'']
     ''xa''
   = Some (Inr [Str ''/x/y.js:1'', Str ''xa'', Str '' ^'', Str [], Str ''Error: m'',
                Str ''    at f (/x/y.js:1:2)'']) \<and>
   recoverColumn ''aaaaaa'' ''bbbbbb'' 6 = None"
proof -
  have "recoverLeftmost ''aaaaaa'' ''bbbbbb'' 6 = 0"
    by code_simp
  then have "recoverColumn ''aaaaaa'' ''bbbbbb'' 6 = None"
    by (simp add: recoverColumn_leftmost)
  moreover have
    "js_lastIndexOf ''xa'' (js_substr ''.ab'' 1 6) (1 + 1) = -1 \<and>
     js_lastIndexOf ''xa'' (js_substr ''.ab'' 1 5) (1 + 1) = -1 \<and>
     js_lastIndexOf ''xa'' (js_substr ''.ab'' 1 4) (1 + 1) = -1 \<and>
     js_lastIndexOf ''xa'' (js_substr ''.ab'' 1 3) (1 + 1) = -1 \<and>
     js_lastIndexOf ''xa'' (js_substr ''.ab'' 1 2) (1 + 1) = -1 \<and>
     js_indexOf '' ^'' CHR ''^'' = 1"
    by code_simp
  moreover have "maskStackLines
     [Str ''/x/y.js:1'', Str ''.ab'', Str '' ^'', Str [], Str ''Error: m'',
      Str ''    at f (/x/y.js:1:2)'']
     ''xa''
   = Some (Inr [Str ''/x/y.js:1'', Str ''xa'', Str '' ^'', Str [], Str ''Error: m'',
                Str ''    at f (/x/y.js:1:2)''])"
    by code_simp
  ultimately show ?thesis by simp
qed

text \<open>
  C7, as amended. On a text whose header line gives a line of the source text: when
  none of the clips that the column search tries (lengths 5 down to 1) occurs in the
  original line at or before the reported column, \<open>maskStackLines\<close> returns, with the
  code line replaced and the indicator line deleted (and a \<open>repl:\<close> header dropped).
  For the generated line \<open>aaaaaa\<close> and the original line \<open>bbbbbb\<close> this is so at every
  reported column below 6.
\<close>

theorem no_clip_deletes_indicator:
  assumes "exec lineNumRegExp header = Some locMatch"
    and "at (map Str (js_split sourceCode)) (toNumber (toString (group locMatch 1)) - 1)
         = Str sourceLine"
    and "js_indexOf indicator CHR ''^'' = column"
  shows "(list_all (\<lambda>n. js_lastIndexOf sourceLine (js_substr stackLine column n) column = -1)
        [5, 4, 3, 2, 1]
      \<longrightarrow> maskStackLines (Str header # Str stackLine # Str indicator # rest) sourceCode
          = Some (shiftRepl (Str header # Str sourceLine # rest))) \<and>
     (stackLine = ''aaaaaa'' \<and> sourceLine = ''bbbbbb'' \<and> column < 6
      \<longrightarrow> maskStackLines (Str header # Str stackLine # Str indicator # rest) sourceCode
          = Some (shiftRepl (Str header # Str sourceLine # rest)))"
proof (intro conjI impI)
  have none: "maskStackLines (Str header # Str stackLine # Str indicator # rest) sourceCode
          = Some (shiftRepl (Str header # Str sourceLine # rest))"
    if "recoverLeftmost stackLine sourceLine column = -1"
    using that assms(3)
    by (simp add: maskStackLines_remap [OF assms(1,2)] recoverColumn_leftmost)
  {
    assume a: "list_all (\<lambda>n. js_lastIndexOf sourceLine (js_substr stackLine column n) column = -1)
        [5, 4, 3, 2, 1]"
    have "leftmostClip stackLine sourceLine column 5 = -1"
    proof (rule leftmostClip_none)
      fix m :: nat assume "1 \<le> m" "m \<le> 5"
      then have "m \<in> {1, 2, 3, 4, 5}" by auto
      with a show "js_lastIndexOf sourceLine (js_substr stackLine column (int m)) column = -1"
        by auto
    qed
    then show "maskStackLines (Str header # Str stackLine # Str indicator # rest) sourceCode
          = Some (shiftRepl (Str header # Str sourceLine # rest))"
      by (intro none) (simp add: recoverLeftmost_def)
  next
    assume b: "stackLine = ''aaaaaa'' \<and> sourceLine = ''bbbbbb'' \<and> column < 6"
    have "-1 \<le> column"
      using assms(3) by (induction indicator arbitrary: column) (auto simp: Let_def)
    with b have "column \<in> {-1, 0, 1, 2, 3, 4, 5}" by auto
    then have "recoverLeftmost ''aaaaaa'' ''bbbbbb'' column = -1"
      by (elim insertE emptyE; hypsubst; code_simp)
    with b show "maskStackLines (Str header # Str stackLine # Str indicator # rest) sourceCode
          = Some (shiftRepl (Str header # Str sourceLine # rest))"
      by (intro none) simp
  }
qed

theorem no_clip_deletes_indicator_witness:
  "maskStackLines
     [Str ''/x/y.js:1'', Str ''aaaaaa'', Str ''   ^'', Str [], Str ''Error: m'',
      Str ''    at f (/x/y.js:1:4)'']
     ''bbbbbb''
   = Some (Inr [Str ''/x/y.js:1'', Str ''bbbbbb'', Str [], Str ''Error: m'',
                Str ''    at f (/x/y.js:1:4)''])"
proof -
  have h: "exec lineNumRegExp ''/x/y.js:1'' = Some (7, 9, [(1, ''1'')])"
    by code_simp
  have l: "at (map Str (js_split ''bbbbbb''))
             (toNumber (toString (group (7, 9, [(1, ''1'')]) 1)) - 1) = Str ''bbbbbb''"
    by code_simp
  have c: "js_indexOf ''   ^'' CHR ''^'' = 3"
    by code_simp
  have n: "list_all (\<lambda>n. js_lastIndexOf ''bbbbbb'' (js_substr ''aaaaaa'' 3 n) 3 = -1)
        [5, 4, 3, 2, 1]"
    by code_simp
  have r: "shiftRepl [Str ''/x/y.js:1'', Str ''bbbbbb'', Str [], Str ''Error: m'',
                Str ''    at f (/x/y.js:1:4)''] =
           Inr [Str ''/x/y.js:1'', Str ''bbbbbb'', Str [], Str ''Error: m'',
                Str ''    at f (/x/y.js:1:4)'']"
    by code_simp
  from no_clip_deletes_indicator [OF h l c, of "''aaaaaa''"
      "[Str [], Str ''Error: m'', Str ''    at f (/x/y.js:1:4)'']"] n r
  show ?thesis by simp
qed

text \<open>
  C8. On a text whose header line gives a line of the source text, and whose column
  search recovered a column: when the recovered column is not below the reported one,
  \<open>maskStackLines\<close> replaces the code line and nothing else (a \<open>repl:\<close> header is
  dropped), so the indicator line stays as it was. The indicator line and the last
  number of the line at index 5, the line that \<open>columnNumRegExp\<close> is applied to, are
  rewritten exactly when the recovered column is strictly below the reported one.
\<close>

theorem rewrite_only_if_smaller:
  assumes "exec lineNumRegExp header = Some locMatch"
    and "at (map Str (js_split sourceCode)) (toNumber (toString (group locMatch 1)) - 1)
         = Str sourceLine"
    and "js_indexOf indicator CHR ''^'' = column"
    and "recoverColumn stackLine sourceLine column = Some newColumn"
    and "0 \<le> newColumn"
  shows "(column \<le> newColumn \<longrightarrow>
            maskStackLines (Str header # Str stackLine # Str indicator # rest) sourceCode
            = Some (shiftRepl (Str header # Str sourceLine # Str indicator # rest))) \<and>
         maskStackLines
           (Str header # Str stackLine # Str indicator # l3 # l4 # Str frame # frames)
           sourceCode
         = Some (shiftRepl
             (if newColumn < column
              then Str header # Str sourceLine #
                   Str (replicate (nat newColumn) CHR '' '' @ ''^'') # l3 # l4 #
                   Str (js_replace columnNumRegExp frame (showNum newColumn)) # frames
              else Str header # Str sourceLine # Str indicator # l3 # l4 # Str frame # frames))"
  using assms(3,4,5)
  by (simp add: maskStackLines_remap [OF assms(1,2)] at_Cons_5)

theorem rewrite_only_if_smaller_witness:
  "maskStackLines
     [Str ''/x/y.js:1'', Str ''var y = f(1);'', Str (replicate 8 CHR '' '' @ ''^''), Str [],
      Str ''ReferenceError: f is not defined'', Str ''    at Object.<anonymous> (/x/y.js:1:9)'']
     ''y = f(1)''
   = Some (Inr
     [Str ''/x/y.js:1'', Str ''y = f(1)'', Str (replicate 4 CHR '' '' @ ''^''), Str [],
      Str ''ReferenceError: f is not defined'', Str ''    at Object.<anonymous> (/x/y.js:1:4)'']) \<and>
   maskStackLines
     [Str ''/x/y.js:1'', Str ''y = g(2);'', Str (replicate 4 CHR '' '' @ ''^''), Str [],
      Str ''ReferenceError: g is not defined'']
     ''y = g(2)''
   = Some (Inr
     [Str ''/x/y.js:1'', Str ''y = g(2)'', Str (replicate 4 CHR '' '' @ ''^''), Str [],
      Str ''ReferenceError: g is not defined''])"
proof -
  have h: "exec lineNumRegExp ''/x/y.js:1'' = Some (7, 9, [(1, ''1'')])"
    by code_simp
  have l: "at (map Str (js_split ''y = f(1)''))
             (toNumber (toString (group (7, 9, [(1, ''1'')]) 1)) - 1) = Str ''y = f(1)''"
    by code_simp
  have c: "js_indexOf (replicate 8 CHR '' '' @ ''^'') CHR ''^'' = 8"
    by code_simp
  have n: "recoverColumn ''var y = f(1);'' ''y = f(1)'' 8 = Some 4"
    by code_simp
  have p: "(0::int) \<le> 4"
    by simp
  have r: "js_replace columnNumRegExp ''    at Object.<anonymous> (/x/y.js:1:9)'' (showNum 4)
           = ''    at Object.<anonymous> (/x/y.js:1:4)''"
    by code_simp
  have s: "shiftRepl
     [Str ''/x/y.js:1'', Str ''y = f(1)'', Str (replicate 4 CHR '' '' @ ''^''), Str [],
      Str ''ReferenceError: f is not defined'', Str ''    at Object.<anonymous> (/x/y.js:1:4)'']
    = Inr
     [Str ''/x/y.js:1'', Str ''y = f(1)'', Str (replicate 4 CHR '' '' @ ''^''), Str [],
      Str ''ReferenceError: f is not defined'', Str ''    at Object.<anonymous> (/x/y.js:1:4)'']"
    by code_simp
  note t = rewrite_only_if_smaller [OF h l c n p, THEN conjunct2,
      of "Str []" "Str ''ReferenceError: f is not defined''"
         "''    at Object.<anonymous> (/x/y.js:1:9)''" "[]"]
  have "nat 4 = 4" by simp
  with t r s have moved: "maskStackLines
     [Str ''/x/y.js:1'', Str ''var y = f(1);'', Str (replicate 8 CHR '' '' @ ''^''), Str [],
      Str ''ReferenceError: f is not defined'', Str ''    at Object.<anonymous> (/x/y.js:1:9)'']
     ''y = f(1)''
   = Some (Inr
     [Str ''/x/y.js:1'', Str ''y = f(1)'', Str (replicate 4 CHR '' '' @ ''^''), Str [],
      Str ''ReferenceError: f is not defined'', Str ''    at Object.<anonymous> (/x/y.js:1:4)''])"
    by simp
  have l': "at (map Str (js_split ''y = g(2)''))
             (toNumber (toString (group (7, 9, [(1, ''1'')]) 1)) - 1) = Str ''y = g(2)''"
    by code_simp
  have c': "js_indexOf (replicate 4 CHR '' '' @ ''^'') CHR ''^'' = 4"
    by code_simp
  have n': "recoverColumn ''y = g(2);'' ''y = g(2)'' 4 = Some 4"
    by code_simp
  have s': "shiftRepl
     [Str ''/x/y.js:1'', Str ''y = g(2)'', Str (replicate 4 CHR '' '' @ ''^''), Str [],
      Str ''ReferenceError: g is not defined'']
    = Inr
     [Str ''/x/y.js:1'', Str ''y = g(2)'', Str (replicate 4 CHR '' '' @ ''^''), Str [],
      Str ''ReferenceError: g is not defined'']"
    by code_simp
  note t' = rewrite_only_if_smaller [OF h l' c' n' p, THEN conjunct1, THEN mp,
      of "[Str [], Str ''ReferenceError: g is not defined'']"]
  have "(4::int) \<le> 4" by simp
  from t' [OF this] s' have kept: "maskStackLines
     [Str ''/x/y.js:1'', Str ''y = g(2);'', Str (replicate 4 CHR '' '' @ ''^''), Str [],
      Str ''ReferenceError: g is not defined'']
     ''y = g(2)''
   = Some (Inr
     [Str ''/x/y.js:1'', Str ''y = g(2)'', Str (replicate 4 CHR '' '' @ ''^''), Str [],
      Str ''ReferenceError: g is not defined''])"
    by simp
  from moved kept show ?thesis by (rule conjI)
qed

section \<open>Reads through the proxy\<close>

text \<open>
  C9 as stated fails. \<open>sourceCode()\<close> runs before \<open>trapSet = true\<close>: a function that
  raises at its first call is called again at the second read, two calls in two reads.
  And \<open>trapSet\<close> is set before the masking: when the masking raises, as it does on the
  text of \<open>refusedError\<close>, the first read raises and the second read returns the text
  that was never masked.
\<close>

theorem producer_called_again_counterexample:
  "callsOf (source (snd (reads ''/node_modules/@std/esm/esm.js'' id
      (maskStackTrace decoratedError (Function raisesOnce) None) 2))) = 2 \<and>
   fst (reads ''/node_modules/@std/esm/esm.js'' id
      (maskStackTrace refusedError (Text ''let x = foo(bar)'') (Some ''const x = foo(bar);'')) 2)
     = [Some (Inl TypeError), Some (Inr (Str (stack refusedError)))]"
  by code_simp

text \<open>
  C9, as amended. A proxy made by \<open>maskStackTrace\<close> with a function for the source text
  is read \<open>n\<close> times at \<open>stack\<close>; the first \<open>j\<close> calls of the function raise, the next
  one returns a text, and \<open>j < n\<close>. Then the function has been called \<open>j + 1\<close> times
  by the \<open>n\<close> reads, exactly once when its first call returns; the proxy and the error
  object after \<open>n\<close> reads are what they were after read \<open>j + 1\<close>; from then on a read
  returns the text stored in the \<open>stack\<close> property and changes nothing, so the error is
  decorated and masked by no later read; before read \<open>j + 1\<close> the error object is
  untouched. When the masking at read \<open>j + 1\<close> returned a text, that text is the one
  stored, and it is what this read and every later one return.
\<close>

theorem stack_reads_call_until_returned:
  assumes "\<forall>i<j. \<exists>e. outcomes p (calls p + i) = Some (Inl e)"
    and "outcomes p (calls p + j) = Some (Inr text)"
    and "j < n"
  shows
    "callsOf (source (snd (reads filename decorate
        (maskStackTrace err (Function p) compiledText) n))) = calls p + Suc j \<and>
     snd (reads filename decorate (maskStackTrace err (Function p) compiledText) n)
       = snd (reads filename decorate (maskStackTrace err (Function p) compiledText) (Suc j)) \<and>
     get filename decorate
        (snd (reads filename decorate (maskStackTrace err (Function p) compiledText) (Suc j)))
        ''stack''
       = (Some (Inr (Str (stack (target (snd (reads filename decorate
            (maskStackTrace err (Function p) compiledText) (Suc j))))))),
          snd (reads filename decorate (maskStackTrace err (Function p) compiledText) (Suc j))) \<and>
     target (snd (reads filename decorate (maskStackTrace err (Function p) compiledText) j))
       = err \<and>
     ((if isParseError (decorate err)
       then Some (maskParserStack filename (stack (decorate err)) text)
       else maskStack filename (stack (decorate err)) text compiledText) = Some (Inr masked)
      \<longrightarrow>
      stack (target (snd (reads filename decorate
          (maskStackTrace err (Function p) compiledText) (Suc j)))) = masked \<and>
      drop j (fst (reads filename decorate (maskStackTrace err (Function p) compiledText) n))
        = replicate (n - j) (Some (Inr (Str masked))))"
proof -
  let ?w = "maskStackTrace err (Function p) compiledText"
  let ?pj = "p\<lparr>calls := calls p + j\<rparr>"
  let ?wj = "?w\<lparr>source := Function ?pj\<rparr>"
  let ?g = "get filename decorate ?wj ''stack''"
  define m where "m = n - Suc j"
  have n: "n = j + Suc m"
    using assms(3) by (simp add: m_def)
  have fresh: "\<not> trapSet ?w" "source ?w = Function p"
    by (simp_all add: maskStackTrace_def)
  from reads_raises [OF fresh assms(1), of filename decorate]
  have wj: "snd (reads filename decorate ?w j) = ?wj"
    and some: "None \<notin> set (fst (reads filename decorate ?w j))"
    and len: "length (fst (reads filename decorate ?w j)) = j"
    by simp_all
  have app: "reads filename decorate ?w (j + k)
      = (fst (reads filename decorate ?w j) @ fst (reads filename decorate ?wj k),
         snd (reads filename decorate ?wj k))" for k
    using reads_append [OF some, of k] by (simp only: wj)
  have untrapped: "\<not> trapSet ?wj"
    by (simp add: maskStackTrace_def)
  have ev: "evalSource (source ?wj)
      = (Some (Inr text), Produced text (p\<lparr>calls := Suc (calls p + j)\<rparr>))"
    using assms(2) by (simp add: call_def)
  then have produced: "fst (evalSource (source ?wj)) = Some (Inr text)"
    by simp
  note g = get_produces [where filename = filename and decorate = decorate, OF untrapped produced]
  have src: "source (snd ?g) = Produced text (p\<lparr>calls := Suc (calls p + j)\<rparr>)"
    using g(2) ev by simp
  have after: "snd (reads filename decorate ?wj (Suc k)) = snd ?g" for k
    using g(1) by (rule reads_once_trapped)
  have tail: "snd (reads filename decorate ?w (j + Suc k)) = snd ?g" for k
    by (simp only: app snd_conv after)
  have w1: "snd (reads filename decorate ?w (Suc j)) = snd ?g"
  proof -
    have e: "Suc j = j + Suc 0"
      by simp
    show ?thesis
      unfolding e by (rule tail)
  qed
  have wn: "snd (reads filename decorate ?w n) = snd ?g"
    unfolding n by (rule tail)
  have c1: "callsOf (source (snd (reads filename decorate ?w n))) = calls p + Suc j"
    by (simp add: wn src)
  have c2: "snd (reads filename decorate ?w n) = snd (reads filename decorate ?w (Suc j))"
    by (simp only: wn w1)
  have c3: "get filename decorate (snd (reads filename decorate ?w (Suc j))) ''stack''
       = (Some (Inr (Str (stack (target (snd (reads filename decorate ?w (Suc j))))))),
          snd (reads filename decorate ?w (Suc j)))"
    unfolding w1 using g(1) by (rule get_after_trap)
  have c4: "target (snd (reads filename decorate ?w j)) = err"
    unfolding wj by (simp add: maskStackTrace_def)
  have c5: "stack (target (snd (reads filename decorate ?w (Suc j)))) = masked \<and>
      drop j (fst (reads filename decorate ?w n)) = replicate (n - j) (Some (Inr (Str masked)))"
    if "(if isParseError (decorate err)
       then Some (maskParserStack filename (stack (decorate err)) text)
       else maskStack filename (stack (decorate err)) text compiledText) = Some (Inr masked)"
  proof -
    have "fst ?g = Some (Inr (Str masked)) \<and> stack (target (snd ?g)) = masked"
      by (rule g(3)) (use that in \<open>simp add: maskStackTrace_def split: if_splits\<close>)
    then have first: "fst ?g = Some (Inr (Str masked))" and stored: "stack (target (snd ?g)) = masked"
      by simp_all
    have "reads filename decorate ?wj (Suc m)
        = (Some (Inr (Str masked)) # replicate m (Some (Inr (Str masked))), snd ?g)"
      by (simp only: reads.simps first option.case reads_after_trap [OF g(1)] stored fst_conv snd_conv)
    then have "fst (reads filename decorate ?wj (Suc m)) = replicate (Suc m) (Some (Inr (Str masked)))"
      by (simp only: fst_conv replicate_Suc)
    then have "drop j (fst (reads filename decorate ?w (j + Suc m)))
        = replicate (Suc m) (Some (Inr (Str masked)))"
      using len by (simp only: app fst_conv drop_append diff_self_eq_0 drop_0 drop_all order_refl append_Nil)
    moreover have "n - j = Suc m"
      by (simp add: n)
    ultimately show ?thesis
      using stored by (simp only: w1 n)
  qed
  show ?thesis
    apply (intro conjI impI)
        apply (rule c1)
       apply (rule c2)
      apply (rule c3)
     apply (rule c4)
    apply (rule c5 [THEN conjunct1], assumption)
    apply (rule c5 [THEN conjunct2], assumption)
    done
qed

theorem stack_reads_call_until_returned_witness:
  "callsOf (source (snd (reads ''/node_modules/@std/esm/esm.js'' id
      (maskStackTrace decoratedError (Function raisesOnce) None) 3))) = 2 \<and>
   drop 1 (fst (reads ''/node_modules/@std/esm/esm.js'' id
      (maskStackTrace decoratedError (Function raisesOnce) None) 3))
     = replicate 2 (Some (Inr (Str (js_join
        [Str ''/x/y.js:1'', Str ''y = f(1)'', Str (replicate 4 CHR '' '' @ ''^''), Str [],
         Str ''ReferenceError: f is not defined'',
         Str ''    at Object.<anonymous> (/x/y.js:1:4)'']))))"
proof -
  have raises: "\<forall>i<1. \<exists>e. outcomes raisesOnce (calls raisesOnce + i) = Some (Inl e)"
    by (simp add: raisesOnce_def)
  have returns: "outcomes raisesOnce (calls raisesOnce + 1) = Some (Inr ''y = f(1)'')"
    by (simp add: raisesOnce_def)
  have n: "(1::nat) < 3"
    by simp
  have masks: "(if isParseError (id decoratedError)
       then Some (maskParserStack ''/node_modules/@std/esm/esm.js''
                    (stack (id decoratedError)) ''y = f(1)'')
       else maskStack ''/node_modules/@std/esm/esm.js''
              (stack (id decoratedError)) ''y = f(1)'' None)
      = Some (Inr (js_join
        [Str ''/x/y.js:1'', Str ''y = f(1)'', Str (replicate 4 CHR '' '' @ ''^''), Str [],
         Str ''ReferenceError: f is not defined'',
         Str ''    at Object.<anonymous> (/x/y.js:1:4)'']))"
    by code_simp
  have called: "calls raisesOnce + Suc 1 = 2"
    by (simp add: raisesOnce_def)
  note t = stack_reads_call_until_returned
    [where filename = "''/node_modules/@std/esm/esm.js''" and decorate = id
       and err = decoratedError and compiledText = None
       and masked = "js_join
        [Str ''/x/y.js:1'', Str ''y = f(1)'', Str (replicate 4 CHR '' '' @ ''^''), Str [],
         Str ''ReferenceError: f is not defined'',
         Str ''    at Object.<anonymous> (/x/y.js:1:4)'']",
     OF raises returns n]
  from t masks have
    "callsOf (source (snd (reads ''/node_modules/@std/esm/esm.js'' id
        (maskStackTrace decoratedError (Function raisesOnce) None) 3))) = calls raisesOnce + Suc 1"
    and "drop 1 (fst (reads ''/node_modules/@std/esm/esm.js'' id
        (maskStackTrace decoratedError (Function raisesOnce) None) 3))
       = replicate (3 - 1) (Some (Inr (Str (js_join
        [Str ''/x/y.js:1'', Str ''y = f(1)'', Str (replicate 4 CHR '' '' @ ''^''), Str [],
         Str ''ReferenceError: f is not defined'',
         Str ''    at Object.<anonymous> (/x/y.js:1:4)'']))))"
    by blast+
  then show ?thesis
    by (simp only: called) simp
qed



end
